theory Spec2Isabelle
  imports Complex_Main "HOL-Library.AList"
begin

section \<open>JSON values and the jsonb column\<close>

text \<open>
  The adapter stores each payload in a PostgreSQL \<^verbatim>\<open>jsonb\<close> column and queries it with
  the containment operator \<^verbatim>\<open>@>\<close>, whose right operand it builds as text:
  \<^verbatim>\<open>`{"uid": "${uid}"}`\<close>. The value the database compares against is whatever that
  text parses to, so the model has the JSON values, the text parser of the database
  and the containment test.

  A string is a list of bytes (the UTF-8 text the database sees). A number is a
  rational (every finite JavaScript number is one). An object is an association
  list with one entry for each key; it is read through \<open>map_of\<close> only, the order of
  the keys carries no meaning.
\<close>

datatype json =
    JNull
  | JBool bool
  | JNum rat
  | JStr string
  | JArr "json list"
  | JObj "(string \<times> json) list"

type_synonym payload = "(string \<times> json) list"

subsection \<open>Characters\<close>

definition dquote :: char where
  "dquote = CHR 0x22"

definition backslash :: char where
  "backslash = CHR 0x5C"

definition code :: "char \<Rightarrow> nat" where
  "code c = of_char c"

definition is_ws :: "char \<Rightarrow> bool" where
  "is_ws c = (code c = 32 \<or> code c = 9 \<or> code c = 10 \<or> code c = 13)"

definition is_digit :: "char \<Rightarrow> bool" where
  "is_digit c = (48 \<le> code c \<and> code c \<le> 57)"

definition is_alnum :: "char \<Rightarrow> bool" where
  "is_alnum c =
     (is_digit c \<or> (97 \<le> code c \<and> code c \<le> 122) \<or> (65 \<le> code c \<and> code c \<le> 90)
      \<or> code c = 95 \<or> 128 \<le> code c)"

definition digit_val :: "char \<Rightarrow> nat" where
  "digit_val c = code c - 48"

definition hex_val :: "char \<Rightarrow> nat option" where
  "hex_val c =
     (if is_digit c then Some (code c - 48)
      else if 97 \<le> code c \<and> code c \<le> 102 then Some (code c - 87)
      else if 65 \<le> code c \<and> code c \<le> 70 then Some (code c - 55)
      else None)"

definition byte :: "nat \<Rightarrow> char" where
  "byte n = char_of n"

text \<open>The UTF-8 encoding of a code point, as the database stores an escaped character.\<close>

definition utf8 :: "nat \<Rightarrow> string" where
  "utf8 n =
     (if n < 128 then [byte n]
      else if n < 2048 then [byte (192 + n div 64), byte (128 + n mod 64)]
      else if n < 65536 then
        [byte (224 + n div 4096), byte (128 + n div 64 mod 64), byte (128 + n mod 64)]
      else
        [byte (240 + n div 262144), byte (128 + n div 4096 mod 64),
         byte (128 + n div 64 mod 64), byte (128 + n mod 64)])"

fun skip_ws :: "string \<Rightarrow> string" where
  "skip_ws [] = []"
| "skip_ws (c # cs) = (if is_ws c then skip_ws cs else c # cs)"

subsection \<open>The JSON text parser\<close>

text \<open>
  \<open>hex4\<close> reads the four hexadecimal digits of a \<^verbatim>\<open>\uXXXX\<close> escape.
\<close>

definition hex4 :: "char \<Rightarrow> char \<Rightarrow> char \<Rightarrow> char \<Rightarrow> nat option" where
  "hex4 a b c d =
     (case (hex_val a, hex_val b, hex_val c, hex_val d) of
        (Some x, Some y, Some z, Some w) \<Rightarrow> Some (((x * 16 + y) * 16 + z) * 16 + w)
      | _ \<Rightarrow> None)"

text \<open>
  \<open>lex_string hi acc cs\<close> reads the body of a string literal after its opening
  quote, up to the closing quote: \<open>acc\<close> is what has been read, \<open>hi\<close> a pending high
  surrogate. A raw control character, an unknown escape, \<^verbatim>\<open>\u0000\<close>, a surrogate
  out of place and the end of the text are errors (\<open>None\<close>).
\<close>

fun lex_string :: "nat option \<Rightarrow> string \<Rightarrow> string \<Rightarrow> (string \<times> string) option" where
  "lex_string hi acc [] = None"
| "lex_string hi acc (c # cs) =
     (if c = dquote then (if hi = None then Some (acc, cs) else None)
      else if c = backslash then
        (case cs of
           [] \<Rightarrow> None
         | e # es \<Rightarrow>
             if code e = 117 then
               (case es of
                  a # b # c # d # rest \<Rightarrow>
                    (case hex4 a b c d of
                       None \<Rightarrow> None
                     | Some n \<Rightarrow>
                         if 55296 \<le> n \<and> n \<le> 56319 then
                           (if hi = None then lex_string (Some n) acc rest else None)
                         else if 56320 \<le> n \<and> n \<le> 57343 then
                           (case hi of
                              None \<Rightarrow> None
                            | Some h \<Rightarrow>
                                lex_string None
                                  (acc @ utf8 (65536 + (h - 55296) * 1024 + (n - 56320))) rest)
                         else if hi \<noteq> None \<or> n = 0 then None
                         else lex_string None (acc @ utf8 n) rest)
                | _ \<Rightarrow> None)
             else if hi \<noteq> None then None
             else if e = dquote \<or> e = backslash \<or> code e = 47 then lex_string None (acc @ [e]) es
             else if code e = 98 then lex_string None (acc @ [byte 8]) es
             else if code e = 102 then lex_string None (acc @ [byte 12]) es
             else if code e = 110 then lex_string None (acc @ [byte 10]) es
             else if code e = 114 then lex_string None (acc @ [byte 13]) es
             else if code e = 116 then lex_string None (acc @ [byte 9]) es
             else None)
      else if hi \<noteq> None then None
      else if code c < 32 then None
      else lex_string None (acc @ [c]) cs)"

text \<open>
  Numbers: \<^verbatim>\<open>-? (0 | [1-9][0-9]*) (. [0-9]+)? ([eE] [+-]? [0-9]+)?\<close>, followed by no
  letter, digit or underscore.
\<close>

definition digits_val :: "string \<Rightarrow> nat" where
  "digits_val ds = foldl (\<lambda>a c. 10 * a + digit_val c) 0 ds"

definition lex_int_part :: "string \<Rightarrow> (nat \<times> string) option" where
  "lex_int_part cs =
     (case cs of
        [] \<Rightarrow> None
      | c # r \<Rightarrow>
          if code c = 48 then Some (0, r)
          else if is_digit c then Some (digits_val (takeWhile is_digit cs), dropWhile is_digit cs)
          else None)"

definition lex_frac_part :: "string \<Rightarrow> (rat \<times> string) option" where
  "lex_frac_part cs =
     (case cs of
        [] \<Rightarrow> Some (0, cs)
      | c # r \<Rightarrow>
          if code c = 46 then
            (let ds = takeWhile is_digit r in
             if ds = [] then None
             else Some (of_nat (digits_val ds) / 10 ^ length ds, dropWhile is_digit r))
          else Some (0, cs))"

definition lex_exp_part :: "string \<Rightarrow> (int \<times> string) option" where
  "lex_exp_part cs =
     (case cs of
        [] \<Rightarrow> Some (0, cs)
      | c # r \<Rightarrow>
          if code c = 101 \<or> code c = 69 then
            (let neg = (case r of [] \<Rightarrow> False | s # _ \<Rightarrow> code s = 45);
                 r' = (case r of [] \<Rightarrow> [] | s # t \<Rightarrow> if code s = 45 \<or> code s = 43 then t else r);
                 ds = takeWhile is_digit r'
             in if ds = [] then None
                else Some (if neg then - int (digits_val ds) else int (digits_val ds),
                           dropWhile is_digit r'))
          else Some (0, cs))"

definition scale10 :: "rat \<Rightarrow> int \<Rightarrow> rat" where
  "scale10 x e = (if 0 \<le> e then x * 10 ^ nat e else x / 10 ^ nat (- e))"

definition lex_number :: "string \<Rightarrow> (json \<times> string) option" where
  "lex_number cs =
     (let neg = (case cs of [] \<Rightarrow> False | c # _ \<Rightarrow> code c = 45);
          cs1 = (if neg then tl cs else cs)
      in case lex_int_part cs1 of
           None \<Rightarrow> None
         | Some (i, cs2) \<Rightarrow>
             (case lex_frac_part cs2 of
                None \<Rightarrow> None
              | Some (f, cs3) \<Rightarrow>
                  (case lex_exp_part cs3 of
                     None \<Rightarrow> None
                   | Some (e, cs4) \<Rightarrow>
                       if (case cs4 of [] \<Rightarrow> False | c # _ \<Rightarrow> is_alnum c) then None
                       else
                         (let m = scale10 (of_nat i + f) e
                          in Some (JNum (if neg then - m else m), cs4)))))"

text \<open>The words \<^verbatim>\<open>true\<close>, \<^verbatim>\<open>false\<close> and \<^verbatim>\<open>null\<close>; any other word is an error.\<close>

definition lex_word :: "string \<Rightarrow> (json \<times> string) option" where
  "lex_word cs =
     (let w = takeWhile is_alnum cs; r = dropWhile is_alnum cs
      in if w = ''true'' then Some (JBool True, r)
         else if w = ''false'' then Some (JBool False, r)
         else if w = ''null'' then Some (JNull, r)
         else None)"

text \<open>\<open>expect c cs\<close> skips white space and reads the character \<open>c\<close>.\<close>

definition expect :: "char \<Rightarrow> string \<Rightarrow> string option" where
  "expect c cs = (case skip_ws cs of [] \<Rightarrow> None | d # r \<Rightarrow> if d = c then Some r else None)"

text \<open>
  The recursive descent. The first argument bounds the number of nested calls still
  allowed; \<open>jsonb_in\<close> starts it above the length of the text, and every call reads at
  least one character before the next one. A key that occurs twice keeps its last
  value, as \<^verbatim>\<open>jsonb\<close> does.
\<close>

fun parse_value :: "nat \<Rightarrow> string \<Rightarrow> (json \<times> string) option"
  and parse_members :: "nat \<Rightarrow> payload \<Rightarrow> string \<Rightarrow> (json \<times> string) option"
  and parse_elements :: "nat \<Rightarrow> json list \<Rightarrow> string \<Rightarrow> (json \<times> string) option"
where
  "parse_value 0 cs = None"
| "parse_value (Suc n) cs =
     (case skip_ws cs of
        [] \<Rightarrow> None
      | c # r \<Rightarrow>
          if code c = 123 then
            (case expect (CHR 0x7D) r of
               Some r' \<Rightarrow> Some (JObj [], r')
             | None \<Rightarrow> parse_members n [] r)
          else if code c = 91 then
            (case expect (CHR 0x5D) r of
               Some r' \<Rightarrow> Some (JArr [], r')
             | None \<Rightarrow> parse_elements n [] r)
          else if c = dquote then
            (case lex_string None [] r of
               None \<Rightarrow> None
             | Some (s, r') \<Rightarrow> Some (JStr s, r'))
          else if code c = 45 \<or> is_digit c then lex_number (c # r)
          else lex_word (c # r))"
| "parse_members 0 acc cs = None"
| "parse_members (Suc n) acc cs =
     (case expect dquote cs of
        None \<Rightarrow> None
      | Some r \<Rightarrow>
          (case lex_string None [] r of
             None \<Rightarrow> None
           | Some (k, r1) \<Rightarrow>
               (case expect (CHR 0x3A) r1 of
                  None \<Rightarrow> None
                | Some r2 \<Rightarrow>
                    (case parse_value n r2 of
                       None \<Rightarrow> None
                     | Some (v, r3) \<Rightarrow>
                         (case expect (CHR 0x2C) r3 of
                            Some r4 \<Rightarrow> parse_members n (AList.update k v acc) r4
                          | None \<Rightarrow>
                              (case expect (CHR 0x7D) r3 of
                                 Some r4 \<Rightarrow> Some (JObj (AList.update k v acc), r4)
                               | None \<Rightarrow> None))))))"
| "parse_elements 0 acc cs = None"
| "parse_elements (Suc n) acc cs =
     (case parse_value n cs of
        None \<Rightarrow> None
      | Some (v, r) \<Rightarrow>
          (case expect (CHR 0x2C) r of
             Some r1 \<Rightarrow> parse_elements n (acc @ [v]) r1
           | None \<Rightarrow>
               (case expect (CHR 0x5D) r of
                  Some r1 \<Rightarrow> Some (JArr (acc @ [v]), r1)
                | None \<Rightarrow> None)))"

text \<open>
  \<open>jsonb_in\<close> is the conversion of a text parameter to \<^verbatim>\<open>jsonb\<close>: \<open>None\<close> is the
  database's \<^verbatim>\<open>invalid input syntax for type json\<close>.
\<close>

definition jsonb_in :: "string \<Rightarrow> json option" where
  "jsonb_in text =
     (case parse_value (Suc (length text)) text of
        None \<Rightarrow> None
      | Some (v, rest) \<Rightarrow> if skip_ws rest = [] then Some v else None)"

subsection \<open>Containment\<close>

text \<open>
  \<open>contains d p\<close> is \<^verbatim>\<open>d @> p\<close> for a stored object \<open>d\<close>: every key of the pattern is a
  key of the data and its value is contained in the data's; an array contains an
  array when each element of the pattern is found in it; scalars are contained in
  equal scalars only.
\<close>

fun contains :: "json \<Rightarrow> json \<Rightarrow> bool" where
  "contains (JObj d) (JObj p) =
     list_all (\<lambda>(k, pv). case map_of d k of None \<Rightarrow> False | Some dv \<Rightarrow> contains dv pv) p"
| "contains (JArr d) (JArr p) =
     list_all (\<lambda>pe. case pe of
                      JArr _ \<Rightarrow> list_ex (\<lambda>de. contains de pe) d
                    | JObj _ \<Rightarrow> list_ex (\<lambda>de. contains de pe) d
                    | _ \<Rightarrow> pe \<in> set d) p"
| "contains JNull JNull = True"
| "contains (JBool a) (JBool b) = (a = b)"
| "contains (JNum a) (JNum b) = (a = b)"
| "contains (JStr a) (JStr b) = (a = b)"
| "contains _ _ = False"

section \<open>The table and the process\<close>

text \<open>
  Modelled from the spec: the \<^verbatim>\<open>Record\<close> model required from \<^verbatim>\<open>../model/record\<close> and its
  table are not among the sources. The spec gives the layout: one table of records
  with the columns name (the namespace), id (unique), payload (\<^verbatim>\<open>data\<close> in the adapter),
  \<^verbatim>\<open>expires_at\<close> (a nullable timestamp) and \<^verbatim>\<open>updated_at\<close> (the time of the last write).

  Times are integers, the milliseconds since the epoch of a JavaScript \<^verbatim>\<open>Date\<close>, and
  the model computes with them exactly.
\<close>

record row =
  name :: string
  id_col :: string
  data :: payload
  expires_at :: "int option"
  updated_at :: int

text \<open>
  An operation is rejected with one of these errors: the database or the connection
  fails, or a constraint of the table is violated (\<open>StorageFailure\<close>); the database
  refuses a text as JSON (\<open>InvalidTextRepresentation\<close>); an update changes no row
  (\<open>NoRowsUpdated\<close>); a fetch that requires a row finds none (\<open>NotFoundError\<close>; the
  fetches of the adapter do not require one and give \<^verbatim>\<open>null\<close> instead); the adapter reads
  a property of \<^verbatim>\<open>null\<close> (\<open>TypeError\<close>).
\<close>

datatype error =
  StorageFailure | InvalidTextRepresentation | NoRowsUpdated | NotFoundError | TypeError

datatype stmt = SelectStmt | InsertStmt | UpdateStmt | DeleteStmt

text \<open>
  The world of the adapter: the table, the counter \<^verbatim>\<open>upsert_count\<close> of the module
  (one for the process, whatever the instance), the statements sent to the database
  so far, and the faults to come: the head of \<open>faults\<close> says whether the next statement
  fails; an empty list is a database that fails no more.
\<close>

record world =
  records :: "row list"
  upsert_count :: nat
  faults :: "bool list"
  log :: "stmt list"

type_synonym 'a result = "(error + 'a) \<times> world"

definition PURGE_AFTER_UPSERT_EVERY :: nat where
  "PURGE_AFTER_UPSERT_EVERY = 10"

text \<open>\<open>issue st w\<close> sends a statement: it is logged, and it succeeds unless a fault is due.\<close>

definition issue :: "stmt \<Rightarrow> world \<Rightarrow> bool \<times> world" where
  "issue st w =
     (case faults w of
        [] \<Rightarrow> (True, w\<lparr>log := log w @ [st]\<rparr>)
      | f # fs \<Rightarrow> (\<not> f, w\<lparr>faults := fs, log := log w @ [st]\<rparr>))"

text \<open>
  The two conditions on \<^verbatim>\<open>expires_at\<close>. In SQL a comparison with \<^verbatim>\<open>NULL\<close> is not true, so
  \<^verbatim>\<open>expires_at <= now\<close> selects no row without expiry, and
  \<^verbatim>\<open>expires_at IS NULL OR expires_at > now\<close> selects all of them.
\<close>

definition expired :: "row \<Rightarrow> int \<Rightarrow> bool" where
  "expired r now = (case expires_at r of None \<Rightarrow> False | Some e \<Rightarrow> e \<le> now)"

definition live :: "row \<Rightarrow> int \<Rightarrow> bool" where
  "live r now = (case expires_at r of None \<Rightarrow> True | Some e \<Rightarrow> now < e)"

subsection \<open>What the adapter asks of the model\<close>

text \<open>
  \<open>fetch P\<close> is \<^verbatim>\<open>.fetch()\<close> on a query with the condition \<open>P\<close>: one row that satisfies it
  (the first of the table here; the query has no order), or \<^verbatim>\<open>null\<close> when there is none,
  as the adapter's tests \<^verbatim>\<open>if (record)\<close> and \<^verbatim>\<open>if (!record)\<close> and its documentation
  ("falsy value when not found") expect.
\<close>

definition fetch :: "(row \<Rightarrow> bool) \<Rightarrow> world \<Rightarrow> row option result" where
  "fetch P w =
     (let (ok, w1) = issue SelectStmt w
      in if ok then (Inr (find P (records w1)), w1) else (Inl StorageFailure, w1))"

text \<open>
  \<open>fetch_contains text P\<close> is \<open>fetch\<close> with the condition \<^verbatim>\<open>data @> text\<close> and \<open>P\<close>: the
  database first converts the text.
\<close>

definition fetch_contains :: "string \<Rightarrow> (row \<Rightarrow> bool) \<Rightarrow> world \<Rightarrow> row option result" where
  "fetch_contains text P w =
     (let (ok, w1) = issue SelectStmt w
      in if \<not> ok then (Inl StorageFailure, w1)
         else
           (case jsonb_in text of
              None \<Rightarrow> (Inl InvalidTextRepresentation, w1)
            | Some pat \<Rightarrow>
                (Inr (find (\<lambda>r. contains (JObj (data r)) pat \<and> P r) (records w1)), w1)))"

text \<open>
  \<open>save_update i f\<close> is \<^verbatim>\<open>.save()\<close> with the method update on a fetched model of id \<open>i\<close>:
  the row of that id takes the attributes \<open>f\<close> writes; when no row has the id the
  save is rejected.
\<close>

definition save_update :: "string \<Rightarrow> (row \<Rightarrow> row) \<Rightarrow> world \<Rightarrow> unit result" where
  "save_update i f w =
     (let (ok, w1) = issue UpdateStmt w
      in if \<not> ok then (Inl StorageFailure, w1)
         else if list_ex (\<lambda>r. id_col r = i) (records w1) then
           (Inr (), w1\<lparr>records := map (\<lambda>r. if id_col r = i then f r else r) (records w1)\<rparr>)
         else (Inl NoRowsUpdated, w1))"

text \<open>
  \<open>save_insert r\<close> is \<^verbatim>\<open>.save({}, {method: 'insert'})\<close> on a new model: the id is unique
  in the table, and the database refuses a second row of the same id.
\<close>

definition save_insert :: "row \<Rightarrow> world \<Rightarrow> unit result" where
  "save_insert r w =
     (let (ok, w1) = issue InsertStmt w
      in if \<not> ok then (Inl StorageFailure, w1)
         else if list_ex (\<lambda>x. id_col x = id_col r) (records w1) then (Inl StorageFailure, w1)
         else (Inr (), w1\<lparr>records := records w1 @ [r]\<rparr>))"

text \<open>
  \<open>destroy_where P\<close> is \<^verbatim>\<open>.destroy({require: false})\<close> on a query with the condition \<open>P\<close>:
  deleting no row is not an error.
\<close>

definition destroy_where :: "(row \<Rightarrow> bool) \<Rightarrow> world \<Rightarrow> unit result" where
  "destroy_where P w =
     (let (ok, w1) = issue DeleteStmt w
      in if ok then (Inr (), w1\<lparr>records := filter (\<lambda>r. \<not> P r) (records w1)\<rparr>)
         else (Inl StorageFailure, w1))"

definition destroy_contains :: "string \<Rightarrow> world \<Rightarrow> unit result" where
  "destroy_contains text w =
     (let (ok, w1) = issue DeleteStmt w
      in if \<not> ok then (Inl StorageFailure, w1)
         else
           (case jsonb_in text of
              None \<Rightarrow> (Inl InvalidTextRepresentation, w1)
            | Some pat \<Rightarrow>
                (Inr (), w1\<lparr>records := filter (\<lambda>r. \<not> contains (JObj (data r)) pat) (records w1)\<rparr>)))"

section \<open>The clock as text\<close>

text \<open>
  \<^verbatim>\<open>new Date().toISOString()\<close>, after the definitions of the language: the day number and
  the time within the day, the year as the largest one that starts on or before the
  day, the month and the date from the day within the year.
\<close>

definition msPerDay :: int where
  "msPerDay = 86400000"

definition Day :: "int \<Rightarrow> int" where
  "Day t = t div msPerDay"

definition TimeWithinDay :: "int \<Rightarrow> int" where
  "TimeWithinDay t = t mod msPerDay"

definition DaysInYear :: "int \<Rightarrow> int" where
  "DaysInYear y =
     (if y mod 4 \<noteq> 0 then 365 else if y mod 100 \<noteq> 0 then 366
      else if y mod 400 \<noteq> 0 then 365 else 366)"

definition DayFromYear :: "int \<Rightarrow> int" where
  "DayFromYear y =
     365 * (y - 1970) + (y - 1969) div 4 - (y - 1901) div 100 + (y - 1601) div 400"

text \<open>\<open>year_search y d\<close> climbs from the year \<open>y\<close> to the last year that starts by day \<open>d\<close>.\<close>

function year_search :: "int \<Rightarrow> int \<Rightarrow> int" where
  "year_search y d = (if DayFromYear (y + 1) \<le> d then year_search (y + 1) d else y)"
  by pat_completeness auto
termination
proof (relation "measure (\<lambda>(y, d). nat (d + 1 - DayFromYear (y + 1)))")
  show "wf (measure (\<lambda>(y, d). nat (d + 1 - DayFromYear (y + 1))))"
    by simp
next
  fix y d :: int
  assume "DayFromYear (y + 1) \<le> d"
  moreover have "DayFromYear (y + 1 + 1) > DayFromYear (y + 1)"
  proof -
    have a: "(y - 1968) div 4 \<le> (y - 1967) div 4"
      by (rule zdiv_mono1) simp_all
    have "(y - 1899) div 100 \<le> (y - 1900 + 100) div 100"
      by (rule zdiv_mono1) simp_all
    then have b: "(y - 1899) div 100 \<le> (y - 1900) div 100 + 1"
      by simp
    have c: "(y - 1600) div 400 \<le> (y - 1599) div 400"
      by (rule zdiv_mono1) simp_all
    show ?thesis
      using a b c by (simp add: DayFromYear_def)
  qed
  ultimately show "((y + 1, d), (y, d)) \<in> measure (\<lambda>(y, d). nat (d + 1 - DayFromYear (y + 1)))"
    by simp
qed

declare year_search.simps [simp del]

definition YearFromTime :: "int \<Rightarrow> int" where
  "YearFromTime t =
     (let d = Day t
      in year_search (1970 + (if 0 \<le> d then d div 366 else d div 365)) d)"

definition InLeapYear :: "int \<Rightarrow> int" where
  "InLeapYear t = (if DaysInYear (YearFromTime t) = 366 then 1 else 0)"

definition DayWithinYear :: "int \<Rightarrow> int" where
  "DayWithinYear t = Day t - DayFromYear (YearFromTime t)"

definition MonthFromTime :: "int \<Rightarrow> int" where
  "MonthFromTime t =
     (let d = DayWithinYear t; l = InLeapYear t
      in if d < 31 then 0 else if d < 59 + l then 1 else if d < 90 + l then 2
         else if d < 120 + l then 3 else if d < 151 + l then 4 else if d < 181 + l then 5
         else if d < 212 + l then 6 else if d < 243 + l then 7 else if d < 273 + l then 8
         else if d < 304 + l then 9 else if d < 334 + l then 10 else 11)"

definition DateFromTime :: "int \<Rightarrow> int" where
  "DateFromTime t =
     (let d = DayWithinYear t; l = InLeapYear t; m = MonthFromTime t
      in if m = 0 then d + 1 else if m = 1 then d - 30 else if m = 2 then d - 58 - l
         else if m = 3 then d - 89 - l else if m = 4 then d - 119 - l
         else if m = 5 then d - 150 - l else if m = 6 then d - 180 - l
         else if m = 7 then d - 211 - l else if m = 8 then d - 242 - l
         else if m = 9 then d - 272 - l else if m = 10 then d - 303 - l else d - 333 - l)"

definition HourFromTime :: "int \<Rightarrow> int" where
  "HourFromTime t = t div 3600000 mod 24"

definition MinFromTime :: "int \<Rightarrow> int" where
  "MinFromTime t = t div 60000 mod 60"

definition SecFromTime :: "int \<Rightarrow> int" where
  "SecFromTime t = t div 1000 mod 60"

definition msFromTime :: "int \<Rightarrow> int" where
  "msFromTime t = t mod 1000"

text \<open>\<open>pad w n\<close> is \<open>n\<close> in \<open>w\<close> decimal digits, for a number that has no more.\<close>

fun pad :: "nat \<Rightarrow> int \<Rightarrow> string" where
  "pad 0 n = []"
| "pad (Suc w) n = pad w (n div 10) @ [byte (48 + nat (n mod 10))]"

definition year_text :: "int \<Rightarrow> string" where
  "year_text y =
     (if 0 \<le> y \<and> y \<le> 9999 then pad 4 y
      else (if y < 0 then ''-'' else ''+'') @ pad 6 \<bar>y\<bar>)"

definition toISOString :: "int \<Rightarrow> string" where
  "toISOString t =
     year_text (YearFromTime t) @ ''-'' @ pad 2 (MonthFromTime t + 1) @ ''-''
       @ pad 2 (DateFromTime t) @ ''T'' @ pad 2 (HourFromTime t) @ '':''
       @ pad 2 (MinFromTime t) @ '':'' @ pad 2 (SecFromTime t) @ ''.''
       @ pad 3 (msFromTime t) @ ''Z''"

section \<open>The adapter\<close>

text \<open>
  Every operation of \<^verbatim>\<open>StorageAdapter\<close> takes the world and returns its result with the new
  world: \<open>Inl\<close> is a rejected promise, \<open>Inr\<close> a fulfilled one. The calls run one after the
  other, and \<open>now\<close> is the reading of the clock during the call (\<^verbatim>\<open>new Date()\<close>,
  \<^verbatim>\<open>Date.now()\<close>), the same for all its readings. An adapter instance is its \<^verbatim>\<open>name\<close>,
  the first argument of \<open>upsert\<close>; no other operation of the model reads it.
\<close>

definition purgeExpired :: "int \<Rightarrow> world \<Rightarrow> unit result" where
  "purgeExpired now w =
     (let w1 = w\<lparr>upsert_count := upsert_count w + 1\<rparr>
      in if upsert_count w1 < PURGE_AFTER_UPSERT_EVERY then (Inr (), w1)
         else destroy_where (\<lambda>r. expired r now) (w1\<lparr>upsert_count := 0\<rparr>))"

text \<open>
  \<^verbatim>\<open>update_data\<close> has the name and the data, and \<^verbatim>\<open>expires_at\<close> only when \<^verbatim>\<open>expiresIn\<close> is
  truthy: \<open>new_expires_at\<close> is that optional property. \<^verbatim>\<open>expiresIn\<close> is a number of seconds
  or \<^verbatim>\<open>undefined\<close> (\<open>None\<close>).
\<close>

definition new_expires_at :: "int option \<Rightarrow> int \<Rightarrow> int option" where
  "new_expires_at expiresIn now =
     (case expiresIn of
        None \<Rightarrow> None
      | Some n \<Rightarrow> if n \<noteq> 0 then Some (now + n * 1000) else None)"

text \<open>
  \<^verbatim>\<open>record.set(update_data)\<close> on the fetched model: the properties of \<^verbatim>\<open>update_data\<close>
  replace the attributes of the same name, the other attributes stay as fetched.
\<close>

definition set_update_data :: "string \<Rightarrow> payload \<Rightarrow> int option \<Rightarrow> row \<Rightarrow> row" where
  "set_update_data nm payload e record =
     record\<lparr>name := nm, data := payload,
            expires_at := (case e of None \<Rightarrow> expires_at record | Some x \<Rightarrow> Some x)\<rparr>"

definition upsert :: "string \<Rightarrow> string \<Rightarrow> payload \<Rightarrow> int option \<Rightarrow> int \<Rightarrow> world \<Rightarrow> unit result" where
  "upsert this_name i payload expiresIn now w =
     (case purgeExpired now w of
        (Inl e, w1) \<Rightarrow> (Inl e, w1)
      | (Inr _, w1) \<Rightarrow>
          (case fetch (\<lambda>r. id_col r = i) w1 of
             (Inl e, w2) \<Rightarrow> (Inl e, w2)
           | (Inr (Some record), w2) \<Rightarrow>
               save_update i
                 (\<lambda>r. (set_update_data this_name payload (new_expires_at expiresIn now) record)
                         \<lparr>updated_at := now\<rparr>) w2
           | (Inr None, w2) \<Rightarrow>
               save_insert
                 \<lparr>name = this_name, id_col = i, data = payload,
                  expires_at = new_expires_at expiresIn now, updated_at = now\<rparr> w2))"

definition find_rec :: "string \<Rightarrow> int \<Rightarrow> world \<Rightarrow> payload option result" where
  "find_rec i now w =
     (case fetch (\<lambda>r. id_col r = i \<and> live r now) w of
        (Inl e, w1) \<Rightarrow> (Inl e, w1)
      | (Inr None, w1) \<Rightarrow> (Inr None, w1)
      | (Inr (Some record), w1) \<Rightarrow> (Inr (Some (data record)), w1))"

definition uid_text :: "string \<Rightarrow> string" where
  "uid_text uid = ''{\"uid\": \"'' @ uid @ ''\"}''"

definition findByUid :: "string \<Rightarrow> int \<Rightarrow> world \<Rightarrow> payload option result" where
  "findByUid uid now w =
     (case fetch_contains (uid_text uid) (\<lambda>r. live r now) w of
        (Inl e, w1) \<Rightarrow> (Inl e, w1)
      | (Inr None, w1) \<Rightarrow> (Inr None, w1)
      | (Inr (Some record), w1) \<Rightarrow> (Inr (Some (data record)), w1))"

definition userCode_text :: "string \<Rightarrow> string" where
  "userCode_text userCode = ''{\"userCode\": \"'' @ userCode @ ''\"}''"

definition findByUserCode :: "string \<Rightarrow> int \<Rightarrow> world \<Rightarrow> payload option result" where
  "findByUserCode userCode now w =
     (case fetch_contains (userCode_text userCode) (\<lambda>r. live r now) w of
        (Inl e, w1) \<Rightarrow> (Inl e, w1)
      | (Inr None, w1) \<Rightarrow> (Inr None, w1)
      | (Inr (Some record), w1) \<Rightarrow> (Inr (Some (data record)), w1))"

text \<open>
  \<open>consume\<close> reads \<^verbatim>\<open>record.get('data')\<close> of what \<open>fetch\<close> gave: of \<^verbatim>\<open>null\<close> when no row has
  the id, and that throws. Otherwise it sets the property \<^verbatim>\<open>consumed\<close> of the data and
  saves the data alone (\<^verbatim>\<open>patch: true\<close>).
\<close>

definition consume :: "string \<Rightarrow> int \<Rightarrow> world \<Rightarrow> unit result" where
  "consume i now w =
     (case fetch (\<lambda>r. id_col r = i) w of
        (Inl e, w1) \<Rightarrow> (Inl e, w1)
      | (Inr None, w1) \<Rightarrow> (Inl TypeError, w1)
      | (Inr (Some record), w1) \<Rightarrow>
          (let data' = AList.update ''consumed'' (JStr (toISOString now)) (data record)
           in save_update i (\<lambda>r. r\<lparr>data := data', updated_at := now\<rparr>) w1))"

definition destroy :: "string \<Rightarrow> world \<Rightarrow> unit result" where
  "destroy i w = destroy_where (\<lambda>r. id_col r = i) w"

definition grantId_text :: "string \<Rightarrow> string" where
  "grantId_text grantId = ''{\"grantId\": \"'' @ grantId @ ''\"}''"

definition revokeByGrantId :: "string \<Rightarrow> world \<Rightarrow> unit result" where
  "revokeByGrantId grantId w = destroy_contains (grantId_text grantId) w"

section \<open>Notions used in the statements\<close>

text \<open>A run of calls of \<open>upsert\<close>, each with its instance name, its arguments and its time.\<close>

fun upserts :: "(string \<times> string \<times> payload \<times> int option \<times> int) list \<Rightarrow> world \<Rightarrow> world" where
  "upserts [] w = w"
| "upserts ((nm, i, p, e, now) # calls) w = upserts calls (snd (upsert nm i p e now w))"

text \<open>
  A string is \<open>plain\<close> when it has no double quote, no backslash and no control
  character: between two double quotes it is then a JSON string literal of itself.
\<close>

definition plain :: "string \<Rightarrow> bool" where
  "plain s = list_all (\<lambda>c. c \<noteq> dquote \<and> c \<noteq> backslash \<and> 32 \<le> code c) s"

text \<open>
  \<open>is_iso8601\<close> recognises the date-time format \<^verbatim>\<open>YYYY-MM-DDTHH:mm:ss.sssZ\<close>, with the year
  in four digits or, signed, in six: a month from 01 to 12, a day from 01 to 31, an
  hour up to 23, minutes and seconds up to 59.
\<close>

definition two_digits :: "char \<Rightarrow> char \<Rightarrow> nat option" where
  "two_digits a b =
     (if is_digit a \<and> is_digit b then Some (10 * digit_val a + digit_val b) else None)"

definition in_range :: "nat option \<Rightarrow> nat \<Rightarrow> nat \<Rightarrow> bool" where
  "in_range v lo hi = (case v of None \<Rightarrow> False | Some n \<Rightarrow> lo \<le> n \<and> n \<le> hi)"

fun iso_tail :: "string \<Rightarrow> bool" where
  "iso_tail [c0, m1, m2, c3, d1, d2, c6, h1, h2, c9, n1, n2, c12, s1, s2, c15, f1, f2, f3, c19] =
     (c0 = CHR ''-'' \<and> in_range (two_digits m1 m2) 1 12
      \<and> c3 = CHR ''-'' \<and> in_range (two_digits d1 d2) 1 31
      \<and> c6 = CHR ''T'' \<and> in_range (two_digits h1 h2) 0 23
      \<and> c9 = CHR '':'' \<and> in_range (two_digits n1 n2) 0 59
      \<and> c12 = CHR '':'' \<and> in_range (two_digits s1 s2) 0 59
      \<and> c15 = CHR ''.'' \<and> is_digit f1 \<and> is_digit f2 \<and> is_digit f3
      \<and> c19 = CHR ''Z'')"
| "iso_tail _ = False"

definition is_iso8601 :: "string \<Rightarrow> bool" where
  "is_iso8601 s =
     (if length s = 24 then list_all is_digit (take 4 s) \<and> iso_tail (drop 4 s)
      else length s = 27 \<and> (hd s = CHR ''+'' \<or> hd s = CHR ''-'')
           \<and> list_all is_digit (take 6 (tl s)) \<and> iso_tail (drop 7 s))"

text \<open>\<open>iso_time_text t\<close> is what \<open>toISOString t\<close> writes after the year.\<close>

definition iso_time_text :: "int \<Rightarrow> string" where
  "iso_time_text t =
     ''-'' @ pad 2 (MonthFromTime t + 1) @ ''-'' @ pad 2 (DateFromTime t) @ ''T''
       @ pad 2 (HourFromTime t) @ '':'' @ pad 2 (MinFromTime t) @ '':''
       @ pad 2 (SecFromTime t) @ ''.'' @ pad 3 (msFromTime t) @ ''Z''"

text \<open>\<open>consumed_row now r\<close> is the row \<open>r\<close> as a \<open>consume\<close> at \<open>now\<close> writes it.\<close>

definition consumed_row :: "int \<Rightarrow> row \<Rightarrow> row" where
  "consumed_row now r =
     r\<lparr>data := AList.update ''consumed'' (JStr (toISOString now)) (data r), updated_at := now\<rparr>"

section \<open>Worlds used as concrete inputs\<close>

definition session_a :: row where
  "session_a =
     \<lparr>name = ''Session'', id_col = ''a'', data = [(''uid'', JStr ''u1'')],
      expires_at = Some 2000, updated_at = 1000\<rparr>"

definition token_b :: row where
  "token_b =
     \<lparr>name = ''AccessToken'', id_col = ''b'', data = [(''grantId'', JStr ''g1'')],
      expires_at = None, updated_at = 1000\<rparr>"

definition empty_world :: world where
  "empty_world = \<lparr>records = [], upsert_count = 0, faults = [], log = []\<rparr>"

definition small_world :: world where
  "small_world = \<lparr>records = [session_a, token_b], upsert_count = 0, faults = [], log = []\<rparr>"

definition sweep_due_world :: world where
  "sweep_due_world =
     \<lparr>records = [session_a, token_b], upsert_count = 9, faults = [True], log = []\<rparr>"

definition expired_session_world :: world where
  "expired_session_world =
     \<lparr>records = [session_a, token_b], upsert_count = 9, faults = [], log = []\<rparr>"

definition ten_calls :: "(string \<times> string \<times> payload \<times> int option \<times> int) list" where
  "ten_calls =
     [(''Session'', ''s1'', [], Some 60, 3001), (''AccessToken'', ''t1'', [], Some 60, 3002),
      (''Session'', ''s2'', [], None, 3003), (''Client'', ''c1'', [], None, 3004),
      (''Session'', ''s1'', [], Some 60, 3005), (''Grant'', ''g1'', [], Some 60, 3006),
      (''Session'', ''s3'', [], Some 60, 3007), (''AccessToken'', ''t2'', [], Some 60, 3008),
      (''Session'', ''s4'', [], Some 60, 3009), (''Client'', ''c2'', [], None, 3010)]"

definition session_c :: row where
  "session_c =
     \<lparr>name = ''Session'', id_col = ''c'',
      data = [(''uid'', JStr ''u1''), (''account'', JStr ''alice'')],
      expires_at = None, updated_at = 1200\<rparr>"

definition device_d :: row where
  "device_d =
     \<lparr>name = ''DeviceCode'', id_col = ''d'', data = [(''userCode'', JStr ''BCDF'')],
      expires_at = Some 2000, updated_at = 1000\<rparr>"

definition same_uid_world :: world where
  "same_uid_world = \<lparr>records = [session_a, session_c], upsert_count = 0, faults = [], log = []\<rparr>"

definition lookup_world :: world where
  "lookup_world =
     \<lparr>records = [session_a, token_b, device_d], upsert_count = 0, faults = [], log = []\<rparr>"

definition quoted_uid :: string where
  "quoted_uid = ''a\"b''"

definition session_q :: row where
  "session_q =
     \<lparr>name = ''Session'', id_col = ''q'', data = [(''uid'', JStr quoted_uid)],
      expires_at = None, updated_at = 1000\<rparr>"

definition quote_world :: world where
  "quote_world = \<lparr>records = [session_q, session_a], upsert_count = 0, faults = [], log = []\<rparr>"

definition injected_uid :: string where
  "injected_uid = ''x\", \"uid\": \"u1''"

definition quoted_grant :: string where
  "quoted_grant = ''g\"1''"

definition token_q :: row where
  "token_q =
     \<lparr>name = ''AccessToken'', id_col = ''tq'', data = [(''grantId'', JStr quoted_grant)],
      expires_at = None, updated_at = 1000\<rparr>"

definition grant_world :: world where
  "grant_world = \<lparr>records = [token_q, token_b], upsert_count = 0, faults = [], log = []\<rparr>"

definition injected_grant :: string where
  "injected_grant = ''x\", \"grantId\": \"g1''"

section \<open>The statements of the database, one by one\<close>

lemma issue_no_fault: "faults w = [] \<Longrightarrow> issue st w = (True, w\<lparr>log := log w @ [st]\<rparr>)"
  by (simp add: issue_def)

lemma issue_fault: "faults w = True # fs \<Longrightarrow> issue st w = (False, w\<lparr>faults := fs, log := log w @ [st]\<rparr>)"
  by (simp add: issue_def)

lemma fetch_no_fault:
  "faults w = [] \<Longrightarrow> fetch P w = (Inr (find P (records w)), w\<lparr>log := log w @ [SelectStmt]\<rparr>)"
  by (simp add: fetch_def issue_no_fault)

lemma save_update_no_fault:
  "faults w = [] \<Longrightarrow> \<exists>r\<in>set (records w). id_col r = i \<Longrightarrow>
   save_update i f w =
     (Inr (), w\<lparr>log := log w @ [UpdateStmt],
               records := map (\<lambda>r. if id_col r = i then f r else r) (records w)\<rparr>)"
  by (simp add: save_update_def issue_no_fault list_ex_iff)

lemma save_insert_no_fault:
  "faults w = [] \<Longrightarrow> \<forall>x\<in>set (records w). id_col x \<noteq> id_col r \<Longrightarrow>
   save_insert r w = (Inr (), w\<lparr>log := log w @ [InsertStmt], records := records w @ [r]\<rparr>)"
  by (simp add: save_insert_def issue_no_fault list_ex_iff)

lemma destroy_where_no_fault:
  "faults w = [] \<Longrightarrow>
   destroy_where P w =
     (Inr (), w\<lparr>log := log w @ [DeleteStmt], records := filter (\<lambda>r. \<not> P r) (records w)\<rparr>)"
  by (simp add: destroy_where_def issue_no_fault)

lemma find_None_set: "find P xs = None \<longleftrightarrow> (\<forall>x\<in>set xs. \<not> P x)"
  by (induction xs) auto

lemma find_Some_set: "find P xs = Some x \<Longrightarrow> x \<in> set xs \<and> P x"
  by (induction xs) (auto split: if_splits)

lemma find_unique:
  "x \<in> set xs \<Longrightarrow> P x \<Longrightarrow> (\<forall>y\<in>set xs. P y \<longrightarrow> y = x) \<Longrightarrow> find P xs = Some x"
proof (induction xs)
  case Nil
  then show ?case by simp
next
  case (Cons a xs)
  show ?case
  proof (cases "P a")
    case True
    then have "a = x" using Cons.prems(3) by simp
    with True show ?thesis by simp
  next
    case False
    then have mem: "x \<in> set xs" using Cons.prems(1,2) by auto
    have rest: "\<forall>y\<in>set xs. P y \<longrightarrow> y = x" using Cons.prems(3) by (meson list.set_intros(2))
    have "find P xs = Some x" by (rule Cons.IH [OF mem Cons.prems(2) rest])
    with False show ?thesis by simp
  qed
qed

lemma distinct_id_unique:
  "distinct (map id_col rs) \<Longrightarrow> x \<in> set rs \<Longrightarrow> y \<in> set rs \<Longrightarrow> id_col x = id_col y \<Longrightarrow> x = y"
proof (induction rs)
  case Nil
  then show ?case by simp
next
  case (Cons a rs)
  have notin: "\<forall>z\<in>set rs. id_col z \<noteq> id_col a"
    using Cons.prems(1) by (auto simp: image_iff)
  have d: "distinct (map id_col rs)"
    using Cons.prems(1) by simp
  consider "x = a" "y = a" | "x = a" "y \<in> set rs" | "x \<in> set rs" "y = a"
    | "x \<in> set rs" "y \<in> set rs"
    using Cons.prems(2,3) by auto
  then show ?case
  proof cases
    case 1
    then show ?thesis by simp
  next
    case 2
    then show ?thesis using notin Cons.prems(4) by metis
  next
    case 3
    then show ?thesis using notin Cons.prems(4) by metis
  next
    case 4
    then show ?thesis using Cons.IH [OF d] Cons.prems(4) by blast
  qed
qed

lemma find_by_id:
  "distinct (map id_col rs) \<Longrightarrow> r \<in> set rs \<Longrightarrow> find (\<lambda>x. id_col x = id_col r) rs = Some r"
  by (rule find_unique) (auto dest: distinct_id_unique)

lemma find_rec_no_fault:
  "faults w = [] \<Longrightarrow>
   fst (find_rec i now w) = Inr (map_option data (find (\<lambda>r. id_col r = i \<and> live r now) (records w)))"
  by (simp add: find_rec_def fetch_no_fault split: option.splits)

lemma destroy_no_fault:
  "faults w = [] \<Longrightarrow>
   destroy i w =
     (Inr (), w\<lparr>log := log w @ [DeleteStmt], records := filter (\<lambda>r. id_col r \<noteq> i) (records w)\<rparr>)"
  by (simp add: destroy_def destroy_where_no_fault)

section \<open>Destroy\<close>

text \<open>
  C7. \<open>destroy i\<close> deletes the row of id \<open>i\<close> when there is one and succeeds when there is
  none: called twice in a row it succeeds both times, the second call finds nothing
  to delete, and after either call \<open>find_rec i\<close> answers not found. The database is
  taken to answer (no fault is due).
\<close>

theorem destroy_idempotent:
  assumes "faults w = []"
  shows "fst (destroy i w) = Inr ()
       \<and> records (snd (destroy i w)) = filter (\<lambda>r. id_col r \<noteq> i) (records w)
       \<and> fst (destroy i (snd (destroy i w))) = Inr ()
       \<and> records (snd (destroy i (snd (destroy i w)))) = records (snd (destroy i w))
       \<and> fst (find_rec i now (snd (destroy i w))) = Inr None
       \<and> fst (find_rec i now (snd (destroy i (snd (destroy i w))))) = Inr None"
proof -
  let ?w1 = "snd (destroy i w)"
  let ?w2 = "snd (destroy i ?w1)"
  have d1: "destroy i w =
      (Inr (), w\<lparr>log := log w @ [DeleteStmt], records := filter (\<lambda>r. id_col r \<noteq> i) (records w)\<rparr>)"
    using assms by (rule destroy_no_fault)
  then have f1: "faults ?w1 = []" and r1: "records ?w1 = filter (\<lambda>r. id_col r \<noteq> i) (records w)"
    using assms by simp_all
  have d2: "destroy i ?w1 =
      (Inr (), ?w1\<lparr>log := log ?w1 @ [DeleteStmt], records := filter (\<lambda>r. id_col r \<noteq> i) (records ?w1)\<rparr>)"
    using f1 by (rule destroy_no_fault)
  then have f2: "faults ?w2 = []" and r2: "records ?w2 = filter (\<lambda>r. id_col r \<noteq> i) (records ?w1)"
    using f1 by simp_all
  have same: "records ?w2 = records ?w1"
    unfolding r2 r1 by simp
  have none1: "find (\<lambda>r. id_col r = i \<and> live r now) (records ?w1) = None"
    unfolding r1 by (simp add: find_None_set)
  have "fst (find_rec i now ?w1) = Inr None"
    using find_rec_no_fault [OF f1, of i now] none1 by simp
  moreover have "fst (find_rec i now ?w2) = Inr None"
    using find_rec_no_fault [OF f2, of i now] none1 same by simp
  ultimately show ?thesis
    using d1 d2 r1 same by simp
qed

theorem destroy_idempotent_witness:
  "faults small_world = []
   \<and> fst (destroy ''a'' small_world) = Inr ()
   \<and> records (snd (destroy ''a'' small_world)) = [token_b]
   \<and> fst (destroy ''a'' (snd (destroy ''a'' small_world))) = Inr ()
   \<and> records (snd (destroy ''a'' (snd (destroy ''a'' small_world)))) = [token_b]
   \<and> fst (find_rec ''a'' 1500 (snd (destroy ''a'' small_world))) = Inr None
   \<and> fst (find_rec ''a'' 1500 (snd (destroy ''a'' (snd (destroy ''a'' small_world))))) = Inr None"
  using destroy_idempotent [of small_world "''a''" 1500]
  by (simp add: small_world_def session_a_def token_b_def)

section \<open>The purge step\<close>

lemma purgeExpired_not_due:
  "upsert_count w + 1 < PURGE_AFTER_UPSERT_EVERY \<Longrightarrow>
   purgeExpired now w = (Inr (), w\<lparr>upsert_count := upsert_count w + 1\<rparr>)"
  by (simp add: purgeExpired_def)

lemma purgeExpired_due_no_fault:
  "\<not> upsert_count w + 1 < PURGE_AFTER_UPSERT_EVERY \<Longrightarrow> faults w = [] \<Longrightarrow>
   purgeExpired now w =
     (Inr (), w\<lparr>upsert_count := 0, log := log w @ [DeleteStmt],
               records := filter (\<lambda>r. \<not> expired r now) (records w)\<rparr>)"
  by (simp add: purgeExpired_def destroy_where_no_fault)

lemma purgeExpired_due_fault:
  "\<not> upsert_count w + 1 < PURGE_AFTER_UPSERT_EVERY \<Longrightarrow> faults w = True # fs \<Longrightarrow>
   purgeExpired now w =
     (Inl StorageFailure, w\<lparr>upsert_count := 0, faults := fs, log := log w @ [DeleteStmt]\<rparr>)"
  by (simp add: purgeExpired_def destroy_where_def issue_def)

section \<open>A sweep that fails\<close>

text \<open>
  C9. When the sweep is due (the counter reaches the threshold with this call) and its
  statement fails, \<open>upsert\<close> is rejected with that failure, the table is as it was, and
  the only statement sent is the delete of the sweep: the record was neither fetched
  nor written.
\<close>

theorem upsert_rejects_when_sweep_fails:
  assumes "PURGE_AFTER_UPSERT_EVERY \<le> upsert_count w + 1" and "faults w = True # fs"
  shows "fst (upsert this_name i payload expiresIn now w) = Inl StorageFailure
       \<and> records (snd (upsert this_name i payload expiresIn now w)) = records w
       \<and> log (snd (upsert this_name i payload expiresIn now w)) = log w @ [DeleteStmt]
       \<and> faults (snd (upsert this_name i payload expiresIn now w)) = fs"
proof -
  have due: "\<not> upsert_count w + 1 < PURGE_AFTER_UPSERT_EVERY"
    using assms(1) by simp
  have "upsert this_name i payload expiresIn now w =
      (Inl StorageFailure, w\<lparr>upsert_count := 0, faults := fs, log := log w @ [DeleteStmt]\<rparr>)"
    by (simp add: upsert_def purgeExpired_due_fault [OF due assms(2)])
  then show ?thesis by simp
qed

theorem upsert_rejects_when_sweep_fails_witness:
  "PURGE_AFTER_UPSERT_EVERY \<le> upsert_count sweep_due_world + 1
   \<and> faults sweep_due_world = [True]
   \<and> fst (upsert ''Session'' ''a'' [(''uid'', JStr ''u2'')] (Some 60) 1500 sweep_due_world)
       = Inl StorageFailure
   \<and> records (snd (upsert ''Session'' ''a'' [(''uid'', JStr ''u2'')] (Some 60) 1500 sweep_due_world))
       = [session_a, token_b]
   \<and> log (snd (upsert ''Session'' ''a'' [(''uid'', JStr ''u2'')] (Some 60) 1500 sweep_due_world))
       = [DeleteStmt]"
  using upsert_rejects_when_sweep_fails
    [of sweep_due_world "[]" "''Session''" "''a''" "[(''uid'', JStr ''u2'')]" "Some 60" 1500]
  by (simp add: sweep_due_world_def PURGE_AFTER_UPSERT_EVERY_def)

section \<open>Consume on an id that is not stored\<close>

lemma consume_absent:
  assumes "faults w = []" and "\<forall>r\<in>set (records w). id_col r \<noteq> i"
  shows "consume i now w = (Inl TypeError, w\<lparr>log := log w @ [SelectStmt]\<rparr>)"
proof -
  have "find (\<lambda>r. id_col r = i) (records w) = None"
    using assms(2) by (simp add: find_None_set)
  then show ?thesis
    using assms(1) by (simp add: consume_def fetch_no_fault)
qed

lemma consume_present:
  assumes "faults w = []" and "find (\<lambda>r. id_col r = i) (records w) = Some record"
  shows "consume i now w =
    (Inr (), w\<lparr>log := log w @ [SelectStmt, UpdateStmt],
              records := map (\<lambda>r. if id_col r = i
                  then r\<lparr>data := AList.update ''consumed'' (JStr (toISOString now)) (data record),
                         updated_at := now\<rparr>
                  else r) (records w)\<rparr>)"
proof -
  have "\<exists>r\<in>set (records w). id_col r = i"
    using find_Some_set [OF assms(2)] by blast
  then show ?thesis
    using assms by (simp add: consume_def fetch_no_fault save_update_no_fault)
qed

text \<open>
  C6, as the claim states it, fails on the kind of the error: no row of \<open>small_world\<close>
  has the id \<^verbatim>\<open>zz\<close>, and \<open>consume\<close> on it is rejected, but with the \<^verbatim>\<open>TypeError\<close> of
  reading \<^verbatim>\<open>record.get\<close> on \<^verbatim>\<open>null\<close>, not with a not-found error: the adapter never tests
  what the fetch gave.
\<close>

theorem consume_absent_error_kind_counterexample:
  "fst (consume ''zz'' 1500 small_world) = Inl TypeError
   \<and> fst (consume ''zz'' 1500 small_world) \<noteq> Inl NotFoundError"
  by (simp add: consume_def fetch_def issue_def small_world_def session_a_def token_b_def)

text \<open>
  C6, amended. With the database answering: on an id that no row has, \<open>consume\<close> is
  rejected with the \<^verbatim>\<open>TypeError\<close> of reading a property of \<^verbatim>\<open>null\<close>, where \<open>find_rec\<close> on
  the same id returns \<^verbatim>\<open>null\<close> without error, and the table stays as it was; on an id
  that a row has, \<open>consume\<close> succeeds.
\<close>

theorem consume_fails_on_absence:
  assumes "faults w = []"
  shows "if \<exists>r\<in>set (records w). id_col r = i
         then fst (consume i now w) = Inr ()
         else fst (consume i now w) = Inl TypeError
            \<and> fst (find_rec i now w) = Inr None
            \<and> records (snd (consume i now w)) = records w"
proof (cases "\<exists>r\<in>set (records w). id_col r = i")
  case True
  then have "find (\<lambda>r. id_col r = i) (records w) \<noteq> None"
    by (simp add: find_None_set)
  then obtain found where "find (\<lambda>r. id_col r = i) (records w) = Some found"
    by blast
  then have "fst (consume i now w) = Inr ()"
    using consume_present [OF assms] by simp
  with True show ?thesis by simp
next
  case False
  then have no: "\<forall>r\<in>set (records w). id_col r \<noteq> i" by simp
  then have none: "find (\<lambda>r. id_col r = i \<and> live r now) (records w) = None"
    by (simp add: find_None_set)
  have "fst (find_rec i now w) = Inr None"
    using find_rec_no_fault [OF assms, of i now] none by simp
  moreover have "consume i now w = (Inl TypeError, w\<lparr>log := log w @ [SelectStmt]\<rparr>)"
    using assms no by (rule consume_absent)
  ultimately show ?thesis using False by simp
qed

theorem consume_fails_on_absence_witness:
  "faults small_world = []
   \<and> fst (consume ''zz'' 1500 small_world) = Inl TypeError
   \<and> fst (find_rec ''zz'' 1500 small_world) = Inr None
   \<and> records (snd (consume ''zz'' 1500 small_world)) = [session_a, token_b]
   \<and> fst (consume ''a'' 1500 small_world) = Inr ()"
  using consume_fails_on_absence [of small_world "''zz''" 1500]
    consume_fails_on_absence [of small_world "''a''" 1500]
  by (simp add: small_world_def session_a_def token_b_def)

section \<open>Upsert with the database answering\<close>

lemma purgeExpired_no_fault:
  "faults w = [] \<Longrightarrow>
   purgeExpired now w =
     (Inr (),
      if upsert_count w + 1 < PURGE_AFTER_UPSERT_EVERY then w\<lparr>upsert_count := upsert_count w + 1\<rparr>
      else w\<lparr>upsert_count := 0, log := log w @ [DeleteStmt],
             records := filter (\<lambda>r. \<not> expired r now) (records w)\<rparr>)"
  by (simp add: purgeExpired_not_due purgeExpired_due_no_fault)

lemma purgeExpired_records:
  "faults w = [] \<Longrightarrow>
   records (snd (purgeExpired now w)) =
     (if upsert_count w + 1 < PURGE_AFTER_UPSERT_EVERY then records w
      else filter (\<lambda>r. \<not> expired r now) (records w))"
  by (simp add: purgeExpired_no_fault)

lemma purgeExpired_faults: "faults w = [] \<Longrightarrow> faults (snd (purgeExpired now w)) = []"
  by (simp add: purgeExpired_no_fault)

lemma purgeExpired_fst: "faults w = [] \<Longrightarrow> fst (purgeExpired now w) = Inr ()"
  by (simp add: purgeExpired_no_fault)

lemma purgeExpired_distinct:
  "faults w = [] \<Longrightarrow> distinct (map id_col (records w)) \<Longrightarrow>
   distinct (map id_col (records (snd (purgeExpired now w))))"
  by (simp add: purgeExpired_records distinct_map_filter)

text \<open>The row that \<open>upsert\<close> writes over a fetched row \<open>old\<close>.\<close>

lemma set_update_data_row:
  "(set_update_data nm p e old)\<lparr>updated_at := now\<rparr> =
     \<lparr>name = nm, id_col = id_col old, data = p,
      expires_at = (case e of None \<Rightarrow> expires_at old | Some x \<Rightarrow> Some x), updated_at = now\<rparr>"
  by (simp add: set_update_data_def)

lemma upsert_update_branch:
  assumes "faults w = []"
    and "find (\<lambda>r. id_col r = i) (records (snd (purgeExpired now w))) = Some old"
  shows "fst (upsert nm i p e now w) = Inr ()"
    and "records (snd (upsert nm i p e now w)) =
       map (\<lambda>r. if id_col r = i
                then \<lparr>name = nm, id_col = id_col old, data = p,
                      expires_at = (case new_expires_at e now of None \<Rightarrow> expires_at old | Some x \<Rightarrow> Some x),
                      updated_at = now\<rparr>
                else r) (records (snd (purgeExpired now w)))"
    and "log (snd (upsert nm i p e now w)) =
       log (snd (purgeExpired now w)) @ [SelectStmt, UpdateStmt]"
proof -
  obtain w1 where p: "purgeExpired now w = (Inr (), w1)" and f1: "faults w1 = []"
    using purgeExpired_fst [OF assms(1), of now] purgeExpired_faults [OF assms(1), of now]
    by (cases "purgeExpired now w") simp
  have found: "find (\<lambda>r. id_col r = i) (records w1) = Some old"
    using assms(2) p by simp
  have "upsert nm i p e now w =
      save_update i (\<lambda>r. (set_update_data nm p (new_expires_at e now) old)\<lparr>updated_at := now\<rparr>)
        (w1\<lparr>log := log w1 @ [SelectStmt]\<rparr>)"
    by (simp add: upsert_def p fetch_no_fault [OF f1] found)
  then have u: "upsert nm i p e now w =
      (Inr (), w1\<lparr>log := log w1 @ [SelectStmt, UpdateStmt],
                records := map (\<lambda>r. if id_col r = i
                    then (set_update_data nm p (new_expires_at e now) old)\<lparr>updated_at := now\<rparr>
                    else r) (records w1)\<rparr>)"
  proof -
    have ex: "\<exists>r\<in>set (records (w1\<lparr>log := log w1 @ [SelectStmt]\<rparr>)). id_col r = i"
      using find_Some_set [OF found] by auto
    have nf: "faults (w1\<lparr>log := log w1 @ [SelectStmt]\<rparr>) = []"
      using f1 by simp
    show ?thesis
      unfolding \<open>upsert nm i p e now w = _\<close> save_update_no_fault [OF nf ex] by simp
  qed
  show "fst (upsert nm i p e now w) = Inr ()"
    using u by simp
  show "records (snd (upsert nm i p e now w)) =
       map (\<lambda>r. if id_col r = i
                then \<lparr>name = nm, id_col = id_col old, data = p,
                      expires_at = (case new_expires_at e now of None \<Rightarrow> expires_at old | Some x \<Rightarrow> Some x),
                      updated_at = now\<rparr>
                else r) (records (snd (purgeExpired now w)))"
    using u p by (simp add: set_update_data_row)
  show "log (snd (upsert nm i p e now w)) =
       log (snd (purgeExpired now w)) @ [SelectStmt, UpdateStmt]"
    using u p by simp
qed

lemma upsert_insert_branch:
  assumes "faults w = []"
    and "find (\<lambda>r. id_col r = i) (records (snd (purgeExpired now w))) = None"
  shows "fst (upsert nm i p e now w) = Inr ()"
    and "records (snd (upsert nm i p e now w)) =
       records (snd (purgeExpired now w)) @
         [\<lparr>name = nm, id_col = i, data = p, expires_at = new_expires_at e now, updated_at = now\<rparr>]"
    and "log (snd (upsert nm i p e now w)) =
       log (snd (purgeExpired now w)) @ [SelectStmt, InsertStmt]"
proof -
  obtain w1 where p: "purgeExpired now w = (Inr (), w1)" and f1: "faults w1 = []"
    using purgeExpired_fst [OF assms(1), of now] purgeExpired_faults [OF assms(1), of now]
    by (cases "purgeExpired now w") simp
  have found: "find (\<lambda>r. id_col r = i) (records w1) = None"
    using assms(2) p by simp
  have u: "upsert nm i p e now w =
      (Inr (), w1\<lparr>log := log w1 @ [SelectStmt, InsertStmt],
                records := records w1 @
                  [\<lparr>name = nm, id_col = i, data = p, expires_at = new_expires_at e now,
                    updated_at = now\<rparr>]\<rparr>)"
  proof -
    let ?new = "\<lparr>name = nm, id_col = i, data = p, expires_at = new_expires_at e now,
                  updated_at = now\<rparr>"
    have absent: "\<forall>x\<in>set (records (w1\<lparr>log := log w1 @ [SelectStmt]\<rparr>)). id_col x \<noteq> id_col ?new"
      using found by (simp add: find_None_set)
    have nf: "faults (w1\<lparr>log := log w1 @ [SelectStmt]\<rparr>) = []"
      using f1 by simp
    show ?thesis
      by (simp add: upsert_def p fetch_no_fault [OF f1] found save_insert_no_fault [OF nf absent])
  qed
  show "fst (upsert nm i p e now w) = Inr ()"
    using u by simp
  show "records (snd (upsert nm i p e now w)) =
       records (snd (purgeExpired now w)) @
         [\<lparr>name = nm, id_col = i, data = p, expires_at = new_expires_at e now, updated_at = now\<rparr>]"
    using u p by simp
  show "log (snd (upsert nm i p e now w)) =
       log (snd (purgeExpired now w)) @ [SelectStmt, InsertStmt]"
    using u p by simp
qed

section \<open>What upsert leaves under an id\<close>

lemma map_id_col_update:
  "id_col new = i \<Longrightarrow> map id_col (map (\<lambda>r. if id_col r = i then new else r) rs) = map id_col rs"
  by (induction rs) auto

lemma upsert_result:
  assumes "faults w = []" and "distinct (map id_col (records w))"
  shows "fst (upsert nm i p e now w) = Inr ()
       \<and> distinct (map id_col (records (snd (upsert nm i p e now w))))
       \<and> find (\<lambda>r. id_col r = i) (records (snd (upsert nm i p e now w))) =
           Some \<lparr>name = nm, id_col = i, data = p,
                 expires_at =
                   (case e of
                      Some n \<Rightarrow>
                        if n \<noteq> 0 then Some (now + n * 1000)
                        else (case find (\<lambda>r. id_col r = i) (records (snd (purgeExpired now w))) of
                                None \<Rightarrow> None | Some old \<Rightarrow> expires_at old)
                    | None \<Rightarrow>
                        (case find (\<lambda>r. id_col r = i) (records (snd (purgeExpired now w))) of
                           None \<Rightarrow> None | Some old \<Rightarrow> expires_at old)),
                 updated_at = now\<rparr>
       \<and> (\<forall>r. id_col r \<noteq> i \<longrightarrow>
             (r \<in> set (records (snd (upsert nm i p e now w)))
              \<longleftrightarrow> r \<in> set (records (snd (purgeExpired now w)))))"
proof -
  let ?rows = "records (snd (purgeExpired now w))"
  let ?w' = "snd (upsert nm i p e now w)"
  have d: "distinct (map id_col ?rows)"
    using assms by (rule purgeExpired_distinct)
  show ?thesis
  proof (cases "find (\<lambda>r. id_col r = i) ?rows")
    case None
    let ?new = "\<lparr>name = nm, id_col = i, data = p, expires_at = new_expires_at e now,
                  updated_at = now\<rparr>"
    have ok: "fst (upsert nm i p e now w) = Inr ()"
      and rows: "records ?w' = ?rows @ [?new]"
      using upsert_insert_branch [OF assms(1) None] by simp_all
    have absent: "\<forall>r\<in>set ?rows. id_col r \<noteq> i"
      using None by (simp add: find_None_set)
    have dist: "distinct (map id_col (records ?w'))"
      using d absent by (auto simp: rows)
    have mem: "?new \<in> set (records ?w')"
      by (simp add: rows)
    have "find (\<lambda>r. id_col r = id_col ?new) (records ?w') = Some ?new"
      using dist mem by (rule find_by_id)
    then have found: "find (\<lambda>r. id_col r = i) (records ?w') = Some ?new"
      by simp
    have frame: "\<forall>r. id_col r \<noteq> i \<longrightarrow> (r \<in> set (records ?w') \<longleftrightarrow> r \<in> set ?rows)"
      by (auto simp: rows)
    show ?thesis
      using ok dist frame None unfolding found
      by (simp add: new_expires_at_def split: option.splits)
  next
    case (Some old)
    have oi: "id_col old = i" and omem: "old \<in> set ?rows"
      using find_Some_set [OF Some] by simp_all
    let ?new = "\<lparr>name = nm, id_col = id_col old, data = p,
                  expires_at = (case new_expires_at e now of None \<Rightarrow> expires_at old
                                | Some x \<Rightarrow> Some x),
                  updated_at = now\<rparr>"
    have ok: "fst (upsert nm i p e now w) = Inr ()"
      and rows: "records ?w' = map (\<lambda>r. if id_col r = i then ?new else r) ?rows"
      using upsert_update_branch [OF assms(1) Some] by simp_all
    have ids: "map id_col (records ?w') = map id_col ?rows"
      unfolding rows by (rule map_id_col_update) (simp add: oi)
    have dist: "distinct (map id_col (records ?w'))"
      using d by (simp add: ids)
    have mem: "?new \<in> set (records ?w')"
      unfolding rows using omem oi by (auto simp: image_iff intro!: bexI [of _ old])
    have "find (\<lambda>r. id_col r = id_col ?new) (records ?w') = Some ?new"
      using dist mem by (rule find_by_id)
    then have found: "find (\<lambda>r. id_col r = i) (records ?w') = Some ?new"
      by (simp add: oi)
    have frame: "\<forall>r. id_col r \<noteq> i \<longrightarrow> (r \<in> set (records ?w') \<longleftrightarrow> r \<in> set ?rows)"
      unfolding rows using oi by (auto simp: image_iff)
    show ?thesis
      using ok dist frame Some oi unfolding found
      by (simp add: new_expires_at_def split: option.splits)
  qed
qed

text \<open>
  C3, as the claim states it, fails: \<open>session_a\<close> expires at 2000, and after an \<open>upsert\<close>
  on its id with \<^verbatim>\<open>expiresIn\<close> 0 the row has the new payload and still expires at 2000.
\<close>

theorem upsert_falsy_ttl_not_cleared_counterexample:
  "records (snd (upsert ''Session'' ''a'' [(''uid'', JStr ''u2'')] (Some 0) 1500 small_world)) =
     [\<lparr>name = ''Session'', id_col = ''a'', data = [(''uid'', JStr ''u2'')],
       expires_at = Some 2000, updated_at = 1500\<rparr>, token_b]
   \<and> expires_at (hd (records (snd (upsert ''Session'' ''a'' [(''uid'', JStr ''u2'')] (Some 0) 1500
         small_world)))) \<noteq> None"
  by (simp add: upsert_def purgeExpired_def PURGE_AFTER_UPSERT_EVERY_def fetch_def issue_def
      save_update_def set_update_data_def new_expires_at_def small_world_def session_a_def
      token_b_def)

text \<open>
  C3, amended. With the database answering and the ids of the table distinct,
  \<open>upsert\<close> succeeds and leaves exactly one row of id \<open>i\<close>, with the name of the instance
  and the payload given; every row of another id is as the purge step of the call
  left it. The expiry of the row is \<open>now + 1000 * expiresIn\<close> (in milliseconds) when
  \<^verbatim>\<open>expiresIn\<close> is truthy. When it is falsy, the expiry is the one the row of that id had
  if the purge step left such a row, and none if the row is new.
\<close>

theorem upsert_replaces_or_creates:
  assumes "faults w = []" and "distinct (map id_col (records w))"
  shows "fst (upsert nm i p e now w) = Inr ()
       \<and> distinct (map id_col (records (snd (upsert nm i p e now w))))
       \<and> find (\<lambda>r. id_col r = i) (records (snd (upsert nm i p e now w))) =
           Some \<lparr>name = nm, id_col = i, data = p,
                 expires_at =
                   (case e of
                      Some n \<Rightarrow>
                        if n \<noteq> 0 then Some (now + n * 1000)
                        else (case find (\<lambda>r. id_col r = i) (records (snd (purgeExpired now w))) of
                                None \<Rightarrow> None | Some old \<Rightarrow> expires_at old)
                    | None \<Rightarrow>
                        (case find (\<lambda>r. id_col r = i) (records (snd (purgeExpired now w))) of
                           None \<Rightarrow> None | Some old \<Rightarrow> expires_at old)),
                 updated_at = now\<rparr>
       \<and> (\<forall>r. id_col r \<noteq> i \<longrightarrow>
             (r \<in> set (records (snd (upsert nm i p e now w)))
              \<longleftrightarrow> r \<in> set (records (snd (purgeExpired now w)))))"
  using assms by (rule upsert_result)

theorem upsert_replaces_or_creates_witness:
  "faults small_world = [] \<and> distinct (map id_col (records small_world))
   \<and> fst (upsert ''Client'' ''a'' [(''uid'', JStr ''u2'')] (Some 60) 1500 small_world) = Inr ()
   \<and> find (\<lambda>r. id_col r = ''a'')
        (records (snd (upsert ''Client'' ''a'' [(''uid'', JStr ''u2'')] (Some 60) 1500 small_world))) =
       Some \<lparr>name = ''Client'', id_col = ''a'', data = [(''uid'', JStr ''u2'')],
             expires_at = Some 61500, updated_at = 1500\<rparr>
   \<and> find (\<lambda>r. id_col r = ''a'')
        (records (snd (upsert ''Client'' ''a'' [(''uid'', JStr ''u2'')] None 1500 small_world))) =
       Some \<lparr>name = ''Client'', id_col = ''a'', data = [(''uid'', JStr ''u2'')],
             expires_at = Some 2000, updated_at = 1500\<rparr>
   \<and> find (\<lambda>r. id_col r = ''c'')
        (records (snd (upsert ''Client'' ''c'' [] None 1500 small_world))) =
       Some \<lparr>name = ''Client'', id_col = ''c'', data = [],
             expires_at = None, updated_at = 1500\<rparr>"
  using upsert_replaces_or_creates
      [of small_world "''Client''" "''a''" "[(''uid'', JStr ''u2'')]" "Some 60" 1500]
    upsert_replaces_or_creates
      [of small_world "''Client''" "''a''" "[(''uid'', JStr ''u2'')]" None 1500]
    upsert_replaces_or_creates [of small_world "''Client''" "''c''" "[]" None 1500]
  by (simp add: small_world_def session_a_def token_b_def purgeExpired_def
      PURGE_AFTER_UPSERT_EVERY_def)

section \<open>A falsy expiresIn on a stored record\<close>

text \<open>
  C10, as the claim states it, fails when the call is the one that sweeps: \<open>session_a\<close>
  expired at 2000, the tenth \<open>upsert\<close> at 3000 first deletes it, then finds no row of
  its id and inserts one, which has no expiry.
\<close>

theorem upsert_falsy_ttl_after_sweep_counterexample:
  "records (snd (upsert ''Session'' ''a'' [(''uid'', JStr ''u2'')] None 3000 expired_session_world)) =
     [token_b,
      \<lparr>name = ''Session'', id_col = ''a'', data = [(''uid'', JStr ''u2'')],
       expires_at = None, updated_at = 3000\<rparr>]
   \<and> expires_at session_a = Some 2000
   \<and> session_a \<in> set (records expired_session_world)"
  by (simp add: upsert_def purgeExpired_def PURGE_AFTER_UPSERT_EVERY_def fetch_def issue_def
      save_insert_def destroy_where_def expired_def new_expires_at_def
      expired_session_world_def session_a_def token_b_def)

text \<open>
  C10, amended. With the database answering and the ids distinct, let \<open>r\<close> be a stored
  row that expires at \<open>x\<close> and that the purge step of the call leaves in place (the
  sweep is not due, or \<open>r\<close> has not expired). After \<open>upsert\<close> on its id with a falsy
  \<^verbatim>\<open>expiresIn\<close> (\<^verbatim>\<open>undefined\<close> or 0) the row of that id has the new name and payload and
  still expires at \<open>x\<close>.
\<close>

theorem upsert_falsy_ttl_keeps_expiry:
  assumes "faults w = []" and "distinct (map id_col (records w))"
    and "r \<in> set (records w)" and "expires_at r = Some x"
    and "e = None \<or> e = Some 0"
    and "upsert_count w + 1 < PURGE_AFTER_UPSERT_EVERY \<or> now < x"
  shows "fst (upsert nm (id_col r) p e now w) = Inr ()
       \<and> find (\<lambda>s. id_col s = id_col r) (records (snd (upsert nm (id_col r) p e now w))) =
           Some \<lparr>name = nm, id_col = id_col r, data = p, expires_at = Some x, updated_at = now\<rparr>"
proof -
  let ?rows = "records (snd (purgeExpired now w))"
  have "\<not> expired r now \<or> upsert_count w + 1 < PURGE_AFTER_UPSERT_EVERY"
    using assms(4,6) by (auto simp: expired_def)
  then have mem: "r \<in> set ?rows"
    using assms(3) by (auto simp: purgeExpired_records [OF assms(1)])
  have "distinct (map id_col ?rows)"
    using assms(1,2) by (rule purgeExpired_distinct)
  then have old: "find (\<lambda>s. id_col s = id_col r) ?rows = Some r"
    using mem by (rule find_by_id)
  show ?thesis
    using upsert_result [OF assms(1,2), of nm "id_col r" p e now] assms(4,5) old
    by auto
qed

theorem upsert_falsy_ttl_keeps_expiry_witness:
  "faults small_world = [] \<and> distinct (map id_col (records small_world))
   \<and> session_a \<in> set (records small_world) \<and> expires_at session_a = Some 2000
   \<and> upsert_count small_world + 1 < PURGE_AFTER_UPSERT_EVERY
   \<and> fst (upsert ''Client'' (id_col session_a) [(''uid'', JStr ''u2'')] (Some 0) 3000 small_world)
       = Inr ()
   \<and> find (\<lambda>s. id_col s = id_col session_a)
        (records (snd (upsert ''Client'' (id_col session_a) [(''uid'', JStr ''u2'')] (Some 0) 3000
           small_world))) =
       Some \<lparr>name = ''Client'', id_col = id_col session_a, data = [(''uid'', JStr ''u2'')],
             expires_at = Some 2000, updated_at = 3000\<rparr>"
  using upsert_falsy_ttl_keeps_expiry
      [of small_world session_a 2000 "Some 0" 3000 "''Client''" "[(''uid'', JStr ''u2'')]"]
  by (simp add: small_world_def session_a_def token_b_def PURGE_AFTER_UPSERT_EVERY_def)

section \<open>The cadence of the purge\<close>

lemma issue_count: "upsert_count (snd (issue st w)) = upsert_count w"
  by (simp add: issue_def split: list.splits)

lemma issue_records: "records (snd (issue st w)) = records w"
  by (simp add: issue_def split: list.splits)

lemma destroy_where_count: "upsert_count (snd (destroy_where P w)) = upsert_count w"
  using issue_count [of DeleteStmt w]
  by (cases "issue DeleteStmt w") (simp add: destroy_where_def)

lemma purgeExpired_count:
  "upsert_count (snd (purgeExpired now w)) =
     (if upsert_count w + 1 < PURGE_AFTER_UPSERT_EVERY then upsert_count w + 1 else 0)"
  by (simp add: purgeExpired_def destroy_where_count)

lemma fetch_count: "upsert_count (snd (fetch P w)) = upsert_count w"
  using issue_count [of SelectStmt w]
  by (cases "issue SelectStmt w") (simp add: fetch_def)

lemma save_update_count: "upsert_count (snd (save_update i f w)) = upsert_count w"
  using issue_count [of UpdateStmt w]
  by (cases "issue UpdateStmt w") (simp add: save_update_def)

lemma save_insert_count: "upsert_count (snd (save_insert r w)) = upsert_count w"
  using issue_count [of InsertStmt w]
  by (cases "issue InsertStmt w") (simp add: save_insert_def)

lemma upsert_count_step:
  "upsert_count (snd (upsert nm i p e now w)) =
     (if upsert_count w + 1 < PURGE_AFTER_UPSERT_EVERY then upsert_count w + 1 else 0)"
proof -
  obtain x w1 where pe: "purgeExpired now w = (x, w1)"
    by (cases "purgeExpired now w")
  have c1: "upsert_count w1 =
      (if upsert_count w + 1 < PURGE_AFTER_UPSERT_EVERY then upsert_count w + 1 else 0)"
    using purgeExpired_count [of now w] pe by simp
  obtain y w2 where fe: "fetch (\<lambda>r. id_col r = i) w1 = (y, w2)"
    by (cases "fetch (\<lambda>r. id_col r = i) w1")
  have c2: "upsert_count w2 = upsert_count w1"
    using fetch_count [of "\<lambda>r. id_col r = i" w1] fe by simp
  have "upsert_count (snd (upsert nm i p e now w)) = upsert_count w1"
    by (simp add: upsert_def pe fe c2 save_update_count save_insert_count
        split: sum.splits option.splits)
  then show ?thesis using c1 by simp
qed

lemma upsert_count_mod:
  "upsert_count w < PURGE_AFTER_UPSERT_EVERY \<Longrightarrow>
   upsert_count (snd (upsert nm i p e now w)) = (upsert_count w + 1) mod PURGE_AFTER_UPSERT_EVERY"
proof (cases "upsert_count w + 1 < PURGE_AFTER_UPSERT_EVERY")
  case True
  then show ?thesis by (simp add: upsert_count_step)
next
  case False
  assume "upsert_count w < PURGE_AFTER_UPSERT_EVERY"
  with False have "upsert_count w + 1 = PURGE_AFTER_UPSERT_EVERY" by simp
  then have "(upsert_count w + 1) mod PURGE_AFTER_UPSERT_EVERY = 0" by simp
  with False show ?thesis by (simp add: upsert_count_step)
qed

lemma upserts_count:
  "upsert_count w < PURGE_AFTER_UPSERT_EVERY \<Longrightarrow>
   upsert_count (upserts calls w) = (upsert_count w + length calls) mod PURGE_AFTER_UPSERT_EVERY"
proof (induction calls arbitrary: w)
  case Nil
  then show ?case by simp
next
  case (Cons c calls)
  obtain nm i p e now where c: "c = (nm, i, p, e, now)"
    by (cases c)
  let ?w1 = "snd (upsert nm i p e now w)"
  have s: "upsert_count ?w1 = (upsert_count w + 1) mod PURGE_AFTER_UPSERT_EVERY"
    using Cons.prems by (rule upsert_count_mod)
  then have "upsert_count ?w1 < PURGE_AFTER_UPSERT_EVERY"
    by (simp add: PURGE_AFTER_UPSERT_EVERY_def)
  then have "upsert_count (upserts calls ?w1) =
      (upsert_count ?w1 + length calls) mod PURGE_AFTER_UPSERT_EVERY"
    by (rule Cons.IH)
  also have "\<dots> = ((upsert_count w + 1) mod PURGE_AFTER_UPSERT_EVERY + length calls)
      mod PURGE_AFTER_UPSERT_EVERY"
    by (simp only: s)
  also have "\<dots> = (upsert_count w + 1 + length calls) mod PURGE_AFTER_UPSERT_EVERY"
    by (rule mod_add_left_eq)
  finally show ?case
    by (simp add: c)
qed

section \<open>Reads return live rows only\<close>

lemma live_iff_not_expired: "live r now \<longleftrightarrow> \<not> expired r now"
  by (auto simp: live_def expired_def split: option.splits)

lemma fetch_Some:
  assumes "fst (fetch P w) = Inr (Some r)"
  shows "r \<in> set (records w) \<and> P r"
proof -
  obtain ok w1 where i: "issue SelectStmt w = (ok, w1)"
    by (cases "issue SelectStmt w")
  have r: "records w1 = records w"
    using issue_records [of SelectStmt w] i by simp
  have "find P (records w) = Some r"
    using assms by (simp add: fetch_def i r split: if_splits)
  then show ?thesis by (rule find_Some_set)
qed

lemma fetch_contains_Some:
  assumes "fst (fetch_contains text P w) = Inr (Some r)"
  shows "r \<in> set (records w) \<and> P r
       \<and> (\<exists>pat. jsonb_in text = Some pat \<and> contains (JObj (data r)) pat)"
proof -
  obtain ok w1 where i: "issue SelectStmt w = (ok, w1)"
    by (cases "issue SelectStmt w")
  have r: "records w1 = records w"
    using issue_records [of SelectStmt w] i by simp
  obtain pat where pat: "jsonb_in text = Some pat"
    and f: "find (\<lambda>r. contains (JObj (data r)) pat \<and> P r) (records w) = Some r"
    using assms by (auto simp: fetch_contains_def i r split: if_splits option.splits)
  show ?thesis
    using find_Some_set [OF f] pat by simp
qed

lemma find_rec_Some:
  assumes "fst (find_rec i now w) = Inr (Some pl)"
  shows "\<exists>r\<in>set (records w). id_col r = i \<and> live r now \<and> data r = pl"
proof -
  obtain x w1 where f: "fetch (\<lambda>r. id_col r = i \<and> live r now) w = (x, w1)"
    by (cases "fetch (\<lambda>r. id_col r = i \<and> live r now) w")
  obtain r where x: "x = Inr (Some r)" and d: "data r = pl"
    using assms by (auto simp: find_rec_def f split: sum.splits option.splits)
  have "r \<in> set (records w) \<and> (id_col r = i \<and> live r now)"
    using fetch_Some [of "\<lambda>r. id_col r = i \<and> live r now" w r] f x by simp
  then show ?thesis using d by blast
qed

lemma findByUid_Some:
  assumes "fst (findByUid uid now w) = Inr (Some pl)"
  shows "\<exists>r\<in>set (records w). live r now \<and> data r = pl
          \<and> (\<exists>pat. jsonb_in (uid_text uid) = Some pat \<and> contains (JObj (data r)) pat)"
proof -
  obtain x w1 where f: "fetch_contains (uid_text uid) (\<lambda>r. live r now) w = (x, w1)"
    by (cases "fetch_contains (uid_text uid) (\<lambda>r. live r now) w")
  obtain r where x: "x = Inr (Some r)" and d: "data r = pl"
    using assms by (auto simp: findByUid_def f split: sum.splits option.splits)
  show ?thesis
    using fetch_contains_Some [of "uid_text uid" "\<lambda>r. live r now" w r] f x d by auto
qed

lemma findByUserCode_Some:
  assumes "fst (findByUserCode userCode now w) = Inr (Some pl)"
  shows "\<exists>r\<in>set (records w). live r now \<and> data r = pl
          \<and> (\<exists>pat. jsonb_in (userCode_text userCode) = Some pat \<and> contains (JObj (data r)) pat)"
proof -
  obtain x w1 where f: "fetch_contains (userCode_text userCode) (\<lambda>r. live r now) w = (x, w1)"
    by (cases "fetch_contains (userCode_text userCode) (\<lambda>r. live r now) w")
  obtain r where x: "x = Inr (Some r)" and d: "data r = pl"
    using assms by (auto simp: findByUserCode_def f split: sum.splits option.splits)
  show ?thesis
    using fetch_contains_Some [of "userCode_text userCode" "\<lambda>r. live r now" w r] f x d by auto
qed

lemma upsert_log_deletes:
  assumes "faults w = []"
  shows "filter (\<lambda>s. s = DeleteStmt) (log (snd (upsert nm i p e now w))) =
         filter (\<lambda>s. s = DeleteStmt) (log w)
           @ (if upsert_count w + 1 < PURGE_AFTER_UPSERT_EVERY then [] else [DeleteStmt])"
proof -
  have pl: "log (snd (purgeExpired now w)) =
      log w @ (if upsert_count w + 1 < PURGE_AFTER_UPSERT_EVERY then [] else [DeleteStmt])"
    using assms by (simp add: purgeExpired_no_fault)
  show ?thesis
  proof (cases "find (\<lambda>r. id_col r = i) (records (snd (purgeExpired now w)))")
    case None
    show ?thesis
      using upsert_insert_branch(3) [OF assms None, of nm p e] by (simp add: pl)
  next
    case (Some old)
    show ?thesis
      using upsert_update_branch(3) [OF assms Some, of nm p e] by (simp add: pl)
  qed
qed

lemma upsert_other_rows:
  assumes "faults w = []" and "id_col r \<noteq> i"
  shows "r \<in> set (records (snd (upsert nm i p e now w)))
     \<longleftrightarrow> r \<in> set (records w) \<and> (upsert_count w + 1 < PURGE_AFTER_UPSERT_EVERY \<or> \<not> expired r now)"
proof -
  have pr: "r \<in> set (records (snd (purgeExpired now w)))
     \<longleftrightarrow> r \<in> set (records w) \<and> (upsert_count w + 1 < PURGE_AFTER_UPSERT_EVERY \<or> \<not> expired r now)"
    using assms(1) by (auto simp: purgeExpired_records)
  show ?thesis
  proof (cases "find (\<lambda>r. id_col r = i) (records (snd (purgeExpired now w)))")
    case None
    show ?thesis
      using upsert_insert_branch(2) [OF assms(1) None, of nm p e] assms(2) pr by auto
  next
    case (Some old)
    have "id_col old = i" using find_Some_set [OF Some] by simp
    then show ?thesis
      using upsert_update_branch(2) [OF assms(1) Some, of nm p e] assms(2) pr
      by (auto simp: image_iff)
  qed
qed

section \<open>Ten upserts\<close>

text \<open>
  C2. The threshold is 10. Every \<open>upsert\<close>, of any instance and whether it succeeds or
  not, moves the one counter of the world: up by one, or back to zero when it reaches
  the threshold; so a run of calls from a counter below the threshold leaves it at
  the sum modulo 10. With the database answering, the call that reaches the
  threshold sends one more delete than the others (none), and a row of another id
  than the one written is in the table afterwards exactly when it was there before
  and either the threshold was not reached or it has not expired (\<^verbatim>\<open>expires_at\<close> null
  or after \<open>now\<close>), whatever its name. And a read (\<open>find_rec\<close>, \<open>findByUid\<close>,
  \<open>findByUserCode\<close>) that returns a payload returns the data of a stored row that
  has not expired at the time of the read.
\<close>

theorem purge_cadence:
  "PURGE_AFTER_UPSERT_EVERY = 10
   \<and> upsert_count (snd (upsert nm i p e now w)) =
       (if upsert_count w + 1 < PURGE_AFTER_UPSERT_EVERY then upsert_count w + 1 else 0)
   \<and> (upsert_count w < PURGE_AFTER_UPSERT_EVERY \<longrightarrow>
        upsert_count (upserts calls w) = (upsert_count w + length calls) mod PURGE_AFTER_UPSERT_EVERY)
   \<and> (faults w = [] \<longrightarrow>
        filter (\<lambda>s. s = DeleteStmt) (log (snd (upsert nm i p e now w))) =
          filter (\<lambda>s. s = DeleteStmt) (log w)
            @ (if upsert_count w + 1 < PURGE_AFTER_UPSERT_EVERY then [] else [DeleteStmt])
        \<and> (\<forall>r. id_col r \<noteq> i \<longrightarrow>
              (r \<in> set (records (snd (upsert nm i p e now w)))
               \<longleftrightarrow> r \<in> set (records w)
                   \<and> (upsert_count w + 1 < PURGE_AFTER_UPSERT_EVERY \<or> \<not> expired r now))))
   \<and> (\<forall>pl. fst (find_rec j t w) = Inr (Some pl) \<or> fst (findByUid uid t w) = Inr (Some pl)
            \<or> fst (findByUserCode userCode t w) = Inr (Some pl)
          \<longrightarrow> (\<exists>r\<in>set (records w). data r = pl \<and> \<not> expired r t))"
proof -
  have reads: "\<exists>r\<in>set (records w). data r = pl \<and> \<not> expired r t"
    if "fst (find_rec j t w) = Inr (Some pl) \<or> fst (findByUid uid t w) = Inr (Some pl)
        \<or> fst (findByUserCode userCode t w) = Inr (Some pl)" for pl
    using that find_rec_Some [of j t w pl] findByUid_Some [of uid t w pl]
      findByUserCode_Some [of userCode t w pl]
    by (auto simp: live_iff_not_expired)
  have c1: "PURGE_AFTER_UPSERT_EVERY = 10"
    by (simp add: PURGE_AFTER_UPSERT_EVERY_def)
  have c2: "upsert_count (snd (upsert nm i p e now w)) =
       (if upsert_count w + 1 < PURGE_AFTER_UPSERT_EVERY then upsert_count w + 1 else 0)"
    by (rule upsert_count_step)
  have c3: "upsert_count w < PURGE_AFTER_UPSERT_EVERY \<longrightarrow>
        upsert_count (upserts calls w) = (upsert_count w + length calls) mod PURGE_AFTER_UPSERT_EVERY"
    using upserts_count [of w calls] by blast
  have c4: "faults w = [] \<longrightarrow>
        filter (\<lambda>s. s = DeleteStmt) (log (snd (upsert nm i p e now w))) =
          filter (\<lambda>s. s = DeleteStmt) (log w)
            @ (if upsert_count w + 1 < PURGE_AFTER_UPSERT_EVERY then [] else [DeleteStmt])
        \<and> (\<forall>r. id_col r \<noteq> i \<longrightarrow>
              (r \<in> set (records (snd (upsert nm i p e now w)))
               \<longleftrightarrow> r \<in> set (records w)
                   \<and> (upsert_count w + 1 < PURGE_AFTER_UPSERT_EVERY \<or> \<not> expired r now)))"
    using upsert_log_deletes [of w nm i p e now] upsert_other_rows [of w _ i nm p e now]
    by blast
  have c5: "\<forall>pl. fst (find_rec j t w) = Inr (Some pl) \<or> fst (findByUid uid t w) = Inr (Some pl)
            \<or> fst (findByUserCode userCode t w) = Inr (Some pl)
          \<longrightarrow> (\<exists>r\<in>set (records w). data r = pl \<and> \<not> expired r t)"
    using reads by blast
  show ?thesis
    using c1 c2 c3 c4 c5 by (intro conjI)
qed

theorem purge_cadence_witness:
  "upsert_count empty_world < PURGE_AFTER_UPSERT_EVERY
   \<and> upsert_count (upserts (take 9 ten_calls) empty_world) = 9
   \<and> upsert_count (upserts ten_calls empty_world) = 0
   \<and> faults expired_session_world = []
   \<and> upsert_count (snd (upsert ''Client'' ''c'' [] None 3000 expired_session_world)) = 0
   \<and> expired session_a 3000 \<and> id_col session_a \<noteq> ''c''
   \<and> session_a \<in> set (records expired_session_world)
   \<and> session_a \<notin> set (records (snd (upsert ''Client'' ''c'' [] None 3000 expired_session_world)))
   \<and> token_b \<in> set (records (snd (upsert ''Client'' ''c'' [] None 3000 expired_session_world)))
   \<and> session_a \<in> set (records (snd (upsert ''Client'' ''c'' [] None 3000 small_world)))
   \<and> fst (find_rec ''a'' 3000 small_world) = Inr None
   \<and> fst (find_rec ''b'' 3000 small_world) = Inr (Some (data token_b))
   \<and> \<not> expired token_b 3000
   \<and> (\<exists>r\<in>set (records small_world). data r = data token_b \<and> \<not> expired r 3000)"
proof -
  note due = purge_cadence [of "''Client''" "''c''" "[]" None 3000 expired_session_world
      ten_calls "''a''" 3000 "''u1''" "''x''"]
  note early = purge_cadence [of "''Client''" "''c''" "[]" None 3000 small_world
      "take 9 ten_calls" "''b''" 3000 "''u1''" "''x''"]
  note nine = purge_cadence [of "''Client''" "''c''" "[]" None 3000 empty_world
      "take 9 ten_calls" "''b''" 3000 "''u1''" "''x''"]
  note ten = purge_cadence [of "''Client''" "''c''" "[]" None 3000 empty_world
      ten_calls "''b''" 3000 "''u1''" "''x''"]
  have len: "length ten_calls = 10"
    by (simp add: ten_calls_def)
  have h1: "upsert_count empty_world < PURGE_AFTER_UPSERT_EVERY"
    by (simp add: empty_world_def PURGE_AFTER_UPSERT_EVERY_def)
  have h2: "faults expired_session_world = []" "faults small_world = []"
    by (simp_all add: expired_session_world_def small_world_def)
  have h3: "id_col session_a \<noteq> ''c''" "id_col token_b \<noteq> ''c''"
    by (simp_all add: session_a_def token_b_def)
  have ex: "expired session_a 3000" "\<not> expired token_b 3000"
    by (simp_all add: expired_def session_a_def token_b_def)
  have mem: "session_a \<in> set (records expired_session_world)"
    "token_b \<in> set (records expired_session_world)" "session_a \<in> set (records small_world)"
    by (simp_all add: expired_session_world_def small_world_def)
  have cnt: "\<not> upsert_count expired_session_world + 1 < PURGE_AFTER_UPSERT_EVERY"
    "upsert_count small_world + 1 < PURGE_AFTER_UPSERT_EVERY"
    by (simp_all add: expired_session_world_def small_world_def PURGE_AFTER_UPSERT_EVERY_def)
  have w9: "upsert_count (upserts (take 9 ten_calls) empty_world) = 9"
    using nine h1 len by (simp add: empty_world_def PURGE_AFTER_UPSERT_EVERY_def)
  have w10: "upsert_count (upserts ten_calls empty_world) = 0"
    using ten h1 len by (simp add: empty_world_def PURGE_AFTER_UPSERT_EVERY_def)
  have c0: "upsert_count (snd (upsert ''Client'' ''c'' [] None 3000 expired_session_world)) = 0"
    using due cnt(1) by simp
  have rows_due: "\<forall>r. id_col r \<noteq> ''c'' \<longrightarrow>
      (r \<in> set (records (snd (upsert ''Client'' ''c'' [] None 3000 expired_session_world)))
       \<longleftrightarrow> r \<in> set (records expired_session_world)
           \<and> (upsert_count expired_session_world + 1 < PURGE_AFTER_UPSERT_EVERY \<or> \<not> expired r 3000))"
    using due h2(1) by blast
  have rows_early: "\<forall>r. id_col r \<noteq> ''c'' \<longrightarrow>
      (r \<in> set (records (snd (upsert ''Client'' ''c'' [] None 3000 small_world)))
       \<longleftrightarrow> r \<in> set (records small_world)
           \<and> (upsert_count small_world + 1 < PURGE_AFTER_UPSERT_EVERY \<or> \<not> expired r 3000))"
    using early h2(2) by blast
  have gone: "session_a \<notin> set (records (snd (upsert ''Client'' ''c'' [] None 3000 expired_session_world)))"
    using rows_due h3(1) ex(1) cnt(1) by blast
  have kept: "token_b \<in> set (records (snd (upsert ''Client'' ''c'' [] None 3000 expired_session_world)))"
    using rows_due h3(2) ex(2) mem(2) by blast
  have still: "session_a \<in> set (records (snd (upsert ''Client'' ''c'' [] None 3000 small_world)))"
    using rows_early h3(1) mem(3) cnt(2) by blast
  have r1: "fst (find_rec ''a'' 3000 small_world) = Inr None"
    by (simp add: find_rec_def fetch_def issue_def live_def small_world_def session_a_def
        token_b_def)
  have r2: "fst (find_rec ''b'' 3000 small_world) = Inr (Some (data token_b))"
    by (simp add: find_rec_def fetch_def issue_def live_def small_world_def session_a_def
        token_b_def)
  have r3: "\<exists>r\<in>set (records small_world). data r = data token_b \<and> \<not> expired r 3000"
    using early r2 by blast
  show ?thesis
    using h1 w9 w10 h2(1) c0 ex h3(1) mem(1) gone kept still r1 r2 r3 by (intro conjI)
qed

section \<open>Texts that are what they look like\<close>

lemma lex_string_plain:
  "plain v \<Longrightarrow> lex_string None acc (v @ dquote # rest) = Some (acc @ v, rest)"
proof (induction v arbitrary: acc)
  case Nil
  then show ?case by simp
next
  case (Cons c v)
  then have c: "c \<noteq> dquote" "c \<noteq> backslash" "\<not> code c < 32" and v: "plain v"
    by (simp_all add: plain_def)
  have "lex_string None acc ((c # v) @ dquote # rest) = lex_string None (acc @ [c]) (v @ dquote # rest)"
    using c by simp
  also have "\<dots> = Some ((acc @ [c]) @ v, rest)"
    using v by (rule Cons.IH)
  finally show ?case by simp
qed

lemma lex_string_plain_literal:
  "plain v \<Longrightarrow> lex_string None acc (v @ CHR 0x22 # rest) = Some (acc @ v, rest)"
  using lex_string_plain [of v acc rest] by (simp add: dquote_def)

lemma jsonb_in_uid_text:
  assumes "plain uid"
  shows "jsonb_in (uid_text uid) = Some (JObj [(''uid'', JStr uid)])"
  using assms
  by (simp add: jsonb_in_def uid_text_def expect_def is_ws_def is_digit_def code_def dquote_def
      backslash_def lex_string_plain_literal)

lemma jsonb_in_userCode_text:
  assumes "plain userCode"
  shows "jsonb_in (userCode_text userCode) = Some (JObj [(''userCode'', JStr userCode)])"
  using assms
  by (simp add: jsonb_in_def userCode_text_def expect_def is_ws_def is_digit_def code_def dquote_def
      backslash_def lex_string_plain_literal)

lemma jsonb_in_grantId_text:
  assumes "plain grantId"
  shows "jsonb_in (grantId_text grantId) = Some (JObj [(''grantId'', JStr grantId)])"
  using assms
  by (simp add: jsonb_in_def grantId_text_def expect_def is_ws_def is_digit_def code_def dquote_def
      backslash_def lex_string_plain_literal)

lemma contains_JStr: "contains x (JStr v) \<longleftrightarrow> x = JStr v"
  by (cases x) auto

lemma contains_field:
  "contains (JObj d) (JObj [(k, JStr v)]) \<longleftrightarrow> map_of d k = Some (JStr v)"
  by (simp add: contains_JStr split: option.splits)

section \<open>The lookups by a field of the payload\<close>

lemma fetch_contains_no_fault:
  "faults w = [] \<Longrightarrow> jsonb_in text = Some pat \<Longrightarrow>
   fetch_contains text P w =
     (Inr (find (\<lambda>r. contains (JObj (data r)) pat \<and> P r) (records w)),
      w\<lparr>log := log w @ [SelectStmt]\<rparr>)"
  by (simp add: fetch_contains_def issue_no_fault)

lemma fetch_field_no_fault:
  assumes "faults w = []" and "jsonb_in text = Some (JObj [(k, JStr v)])"
  shows "fetch_contains text P w =
     (Inr (find (\<lambda>r. map_of (data r) k = Some (JStr v) \<and> P r) (records w)),
      w\<lparr>log := log w @ [SelectStmt]\<rparr>)"
proof -
  have "(\<lambda>r. contains (JObj (data r)) (JObj [(k, JStr v)]) \<and> P r) =
        (\<lambda>r. map_of (data r) k = Some (JStr v) \<and> P r)"
    by (simp only: contains_field)
  then show ?thesis
    using fetch_contains_no_fault [OF assms, of P] by simp
qed

lemma findByUid_plain:
  assumes "faults w = []" and "plain uid"
  shows "fst (findByUid uid now w) =
     Inr (map_option data
       (find (\<lambda>r. map_of (data r) ''uid'' = Some (JStr uid) \<and> live r now) (records w)))"
proof -
  have f: "fetch_contains (uid_text uid) (\<lambda>r. live r now) w =
     (Inr (find (\<lambda>r. map_of (data r) ''uid'' = Some (JStr uid) \<and> live r now) (records w)),
      w\<lparr>log := log w @ [SelectStmt]\<rparr>)"
    using assms(1) jsonb_in_uid_text [OF assms(2)] by (rule fetch_field_no_fault)
  show ?thesis
    by (cases "find (\<lambda>r. map_of (data r) ''uid'' = Some (JStr uid) \<and> live r now) (records w)")
      (simp_all add: findByUid_def f)
qed

lemma findByUserCode_plain:
  assumes "faults w = []" and "plain userCode"
  shows "fst (findByUserCode userCode now w) =
     Inr (map_option data
       (find (\<lambda>r. map_of (data r) ''userCode'' = Some (JStr userCode) \<and> live r now) (records w)))"
proof -
  have f: "fetch_contains (userCode_text userCode) (\<lambda>r. live r now) w =
     (Inr (find (\<lambda>r. map_of (data r) ''userCode'' = Some (JStr userCode) \<and> live r now)
            (records w)),
      w\<lparr>log := log w @ [SelectStmt]\<rparr>)"
    using assms(1) jsonb_in_userCode_text [OF assms(2)] by (rule fetch_field_no_fault)
  show ?thesis
    by (cases "find (\<lambda>r. map_of (data r) ''userCode'' = Some (JStr userCode) \<and> live r now)
                 (records w)")
      (simp_all add: findByUserCode_def f)
qed

text \<open>A lookup by a field when at most the row \<open>r\<close> can answer it.\<close>

lemma find_field_only:
  assumes "r \<in> set rs" and "map_of (data r) k = Some (JStr v)"
    and "\<forall>s\<in>set rs. map_of (data s) k = Some (JStr v) \<and> live s now \<longrightarrow> s = r"
  shows "find (\<lambda>s. map_of (data s) k = Some (JStr v) \<and> live s now) rs =
         (if live r now then Some r else None)"
proof (cases "live r now")
  case True
  have "find (\<lambda>s. map_of (data s) k = Some (JStr v) \<and> live s now) rs = Some r"
    using assms(1) by (rule find_unique) (use assms(2,3) True in simp_all)
  with True show ?thesis by simp
next
  case False
  have "\<forall>s\<in>set rs. \<not> (map_of (data s) k = Some (JStr v) \<and> live s now)"
    using assms(3) False by blast
  then have "find (\<lambda>s. map_of (data s) k = Some (JStr v) \<and> live s now) rs = None"
    by (simp only: find_None_set)
  with False show ?thesis by simp
qed

lemma find_id_live:
  assumes "distinct (map id_col rs)" and "r \<in> set rs"
  shows "find (\<lambda>s. id_col s = id_col r \<and> live s now) rs = (if live r now then Some r else None)"
proof (cases "live r now")
  case True
  have "find (\<lambda>s. id_col s = id_col r \<and> live s now) rs = Some r"
    using assms(2)
  proof (rule find_unique)
    show "id_col r = id_col r \<and> live r now" using True by simp
    show "\<forall>y\<in>set rs. id_col y = id_col r \<and> live y now \<longrightarrow> y = r"
      using distinct_id_unique [OF assms(1) _ assms(2)] by blast
  qed
  with True show ?thesis by simp
next
  case False
  have "\<forall>s\<in>set rs. \<not> (id_col s = id_col r \<and> live s now)"
    using distinct_id_unique [OF assms(1) _ assms(2)] False by blast
  then have "find (\<lambda>s. id_col s = id_col r \<and> live s now) rs = None"
    by (simp only: find_None_set)
  with False show ?thesis by simp
qed

section \<open>Expiry on the read paths\<close>

lemma plain_u1: "plain ''u1''"
  by (simp add: plain_def dquote_def backslash_def code_def)

lemma plain_BCDF: "plain ''BCDF''"
  by (simp add: plain_def dquote_def backslash_def code_def)

text \<open>
  C1, as the claim states it, fails when two stored records carry the same \<^verbatim>\<open>uid\<close>:
  \<open>session_a\<close> expired at 2000 and \<open>session_c\<close> never expires. At 3000 the read by the
  \<^verbatim>\<open>uid\<close> of the expired record is not answered not-found, it returns the payload of
  \<open>session_c\<close>; at 1500 both are live and the read by the \<^verbatim>\<open>uid\<close> of \<open>session_c\<close> returns
  the payload of \<open>session_a\<close> (the row the database gives first), not its own.
\<close>

theorem reads_same_uid_counterexample:
  "session_a \<in> set (records same_uid_world) \<and> session_c \<in> set (records same_uid_world)
   \<and> expires_at session_a = Some 2000 \<and> expires_at session_c = None
   \<and> map_of (data session_a) ''uid'' = Some (JStr ''u1'')
   \<and> map_of (data session_c) ''uid'' = Some (JStr ''u1'')
   \<and> fst (findByUid ''u1'' 3000 same_uid_world) = Inr (Some (data session_c))
   \<and> fst (findByUid ''u1'' 3000 same_uid_world) \<noteq> Inr None
   \<and> fst (findByUid ''u1'' 1500 same_uid_world) = Inr (Some (data session_a))
   \<and> fst (findByUid ''u1'' 1500 same_uid_world) \<noteq> Inr (Some (data session_c))"
  by (simp add: findByUid_def fetch_contains_def issue_def uid_text_def jsonb_in_def expect_def
      is_ws_def is_digit_def code_def dquote_def backslash_def live_def same_uid_world_def
      session_a_def session_c_def)

text \<open>
  C1, amended. With the database answering and the ids distinct, take a stored row
  \<open>r\<close>. If \<open>r\<close> has expired (\<^verbatim>\<open>expires_at\<close> is set and not after \<open>now\<close>), \<open>find_rec\<close> on its
  id answers not found; if \<open>r\<close> is live (\<^verbatim>\<open>expires_at\<close> null or after \<open>now\<close>), it returns
  the data of \<open>r\<close> as stored. The same holds of \<open>findByUid\<close> on the \<^verbatim>\<open>uid\<close> of \<open>r\<close> and of
  \<open>findByUserCode\<close> on its \<^verbatim>\<open>userCode\<close>, for a plain value that no other live row
  carries. And whatever the argument, a read that returns a payload returns the data
  of a stored row that is live.
\<close>

theorem reads_respect_expiry:
  assumes "faults w = []" and "distinct (map id_col (records w))" and "r \<in> set (records w)"
  shows "(expired r now \<longrightarrow> fst (find_rec (id_col r) now w) = Inr None)
       \<and> (live r now \<longrightarrow> fst (find_rec (id_col r) now w) = Inr (Some (data r)))
       \<and> (plain uid \<and> map_of (data r) ''uid'' = Some (JStr uid)
            \<and> (\<forall>s\<in>set (records w). map_of (data s) ''uid'' = Some (JStr uid) \<and> live s now \<longrightarrow> s = r)
          \<longrightarrow> (expired r now \<longrightarrow> fst (findByUid uid now w) = Inr None)
              \<and> (live r now \<longrightarrow> fst (findByUid uid now w) = Inr (Some (data r))))
       \<and> (plain userCode \<and> map_of (data r) ''userCode'' = Some (JStr userCode)
            \<and> (\<forall>s\<in>set (records w).
                  map_of (data s) ''userCode'' = Some (JStr userCode) \<and> live s now \<longrightarrow> s = r)
          \<longrightarrow> (expired r now \<longrightarrow> fst (findByUserCode userCode now w) = Inr None)
              \<and> (live r now \<longrightarrow> fst (findByUserCode userCode now w) = Inr (Some (data r))))
       \<and> (\<forall>i u pl. fst (find_rec i now w) = Inr (Some pl) \<or> fst (findByUid u now w) = Inr (Some pl)
              \<or> fst (findByUserCode u now w) = Inr (Some pl)
            \<longrightarrow> (\<exists>s\<in>set (records w). live s now \<and> data s = pl))"
proof -
  have byid: "fst (find_rec (id_col r) now w) = Inr (if live r now then Some (data r) else None)"
    using find_rec_no_fault [OF assms(1), of "id_col r" now] find_id_live [OF assms(2,3), of now]
    by simp
  have c1: "expired r now \<longrightarrow> fst (find_rec (id_col r) now w) = Inr None"
    using byid by (simp add: live_iff_not_expired)
  have c2: "live r now \<longrightarrow> fst (find_rec (id_col r) now w) = Inr (Some (data r))"
    using byid by simp
  have c3: "plain uid \<and> map_of (data r) ''uid'' = Some (JStr uid)
            \<and> (\<forall>s\<in>set (records w). map_of (data s) ''uid'' = Some (JStr uid) \<and> live s now \<longrightarrow> s = r)
          \<longrightarrow> (expired r now \<longrightarrow> fst (findByUid uid now w) = Inr None)
              \<and> (live r now \<longrightarrow> fst (findByUid uid now w) = Inr (Some (data r)))"
  proof
    assume h: "plain uid \<and> map_of (data r) ''uid'' = Some (JStr uid)
            \<and> (\<forall>s\<in>set (records w). map_of (data s) ''uid'' = Some (JStr uid) \<and> live s now \<longrightarrow> s = r)"
    have "find (\<lambda>s. map_of (data s) ''uid'' = Some (JStr uid) \<and> live s now) (records w) =
          (if live r now then Some r else None)"
      using h by (intro find_field_only [OF assms(3)]) blast+
    moreover have "plain uid"
      using h by blast
    ultimately have "fst (findByUid uid now w) = Inr (if live r now then Some (data r) else None)"
      using findByUid_plain [OF assms(1), of uid now] by simp
    then show "(expired r now \<longrightarrow> fst (findByUid uid now w) = Inr None)
              \<and> (live r now \<longrightarrow> fst (findByUid uid now w) = Inr (Some (data r)))"
      by (simp add: live_iff_not_expired)
  qed
  have c4: "plain userCode \<and> map_of (data r) ''userCode'' = Some (JStr userCode)
            \<and> (\<forall>s\<in>set (records w).
                  map_of (data s) ''userCode'' = Some (JStr userCode) \<and> live s now \<longrightarrow> s = r)
          \<longrightarrow> (expired r now \<longrightarrow> fst (findByUserCode userCode now w) = Inr None)
              \<and> (live r now \<longrightarrow> fst (findByUserCode userCode now w) = Inr (Some (data r)))"
  proof
    assume h: "plain userCode \<and> map_of (data r) ''userCode'' = Some (JStr userCode)
            \<and> (\<forall>s\<in>set (records w).
                  map_of (data s) ''userCode'' = Some (JStr userCode) \<and> live s now \<longrightarrow> s = r)"
    have "find (\<lambda>s. map_of (data s) ''userCode'' = Some (JStr userCode) \<and> live s now) (records w) =
          (if live r now then Some r else None)"
      using h by (intro find_field_only [OF assms(3)]) blast+
    moreover have "plain userCode"
      using h by blast
    ultimately have "fst (findByUserCode userCode now w) =
        Inr (if live r now then Some (data r) else None)"
      using findByUserCode_plain [OF assms(1), of userCode now] by simp
    then show "(expired r now \<longrightarrow> fst (findByUserCode userCode now w) = Inr None)
              \<and> (live r now \<longrightarrow> fst (findByUserCode userCode now w) = Inr (Some (data r)))"
      by (simp add: live_iff_not_expired)
  qed
  have c5: "\<forall>i u pl. fst (find_rec i now w) = Inr (Some pl) \<or> fst (findByUid u now w) = Inr (Some pl)
              \<or> fst (findByUserCode u now w) = Inr (Some pl)
            \<longrightarrow> (\<exists>s\<in>set (records w). live s now \<and> data s = pl)"
    using find_rec_Some [of _ now w] findByUid_Some [of _ now w] findByUserCode_Some [of _ now w]
    by blast
  show ?thesis
    using c1 c2 c3 c4 c5 by (intro conjI)
qed

theorem reads_respect_expiry_witness:
  "faults lookup_world = [] \<and> distinct (map id_col (records lookup_world))
   \<and> session_a \<in> set (records lookup_world) \<and> device_d \<in> set (records lookup_world)
   \<and> live session_a 1500 \<and> expired session_a 3000
   \<and> live device_d 1500 \<and> expired device_d 3000
   \<and> plain ''u1'' \<and> map_of (data session_a) ''uid'' = Some (JStr ''u1'')
   \<and> plain ''BCDF'' \<and> map_of (data device_d) ''userCode'' = Some (JStr ''BCDF'')
   \<and> fst (find_rec (id_col session_a) 1500 lookup_world) = Inr (Some (data session_a))
   \<and> fst (find_rec (id_col session_a) 3000 lookup_world) = Inr None
   \<and> fst (findByUid ''u1'' 1500 lookup_world) = Inr (Some (data session_a))
   \<and> fst (findByUid ''u1'' 3000 lookup_world) = Inr None
   \<and> fst (findByUserCode ''BCDF'' 1500 lookup_world) = Inr (Some (data device_d))
   \<and> fst (findByUserCode ''BCDF'' 3000 lookup_world) = Inr None"
proof -
  have f: "faults lookup_world = []"
    and d: "distinct (map id_col (records lookup_world))"
    and ma: "session_a \<in> set (records lookup_world)"
    and md: "device_d \<in> set (records lookup_world)"
    by (simp_all add: lookup_world_def session_a_def token_b_def device_d_def)
  have la: "live session_a 1500" "expired session_a 3000"
    and ld: "live device_d 1500" "expired device_d 3000"
    by (simp_all add: live_def expired_def session_a_def device_d_def)
  have ua: "map_of (data session_a) ''uid'' = Some (JStr ''u1'')"
    and ud: "map_of (data device_d) ''userCode'' = Some (JStr ''BCDF'')"
    by (simp_all add: session_a_def device_d_def)
  have only_a: "\<forall>s\<in>set (records lookup_world).
      map_of (data s) ''uid'' = Some (JStr ''u1'') \<and> live s t \<longrightarrow> s = session_a" for t
    by (simp add: lookup_world_def session_a_def token_b_def device_d_def)
  have only_d: "\<forall>s\<in>set (records lookup_world).
      map_of (data s) ''userCode'' = Some (JStr ''BCDF'') \<and> live s t \<longrightarrow> s = device_d" for t
    by (simp add: lookup_world_def session_a_def token_b_def device_d_def)
  note a1 = reads_respect_expiry [OF f d ma, of 1500 "''u1''" "''BCDF''"]
  note a2 = reads_respect_expiry [OF f d ma, of 3000 "''u1''" "''BCDF''"]
  note d1 = reads_respect_expiry [OF f d md, of 1500 "''u1''" "''BCDF''"]
  note d2 = reads_respect_expiry [OF f d md, of 3000 "''u1''" "''BCDF''"]
  have r1: "fst (find_rec (id_col session_a) 1500 lookup_world) = Inr (Some (data session_a))"
    using a1 la(1) by blast
  have r2: "fst (find_rec (id_col session_a) 3000 lookup_world) = Inr None"
    using a2 la(2) by blast
  have r3: "fst (findByUid ''u1'' 1500 lookup_world) = Inr (Some (data session_a))"
    using a1 la(1) plain_u1 ua only_a [of 1500] by blast
  have r4: "fst (findByUid ''u1'' 3000 lookup_world) = Inr None"
    using a2 la(2) plain_u1 ua only_a [of 3000] by blast
  have r5: "fst (findByUserCode ''BCDF'' 1500 lookup_world) = Inr (Some (data device_d))"
    using d1 ld(1) plain_BCDF ud only_d [of 1500] by blast
  have r6: "fst (findByUserCode ''BCDF'' 3000 lookup_world) = Inr None"
    using d2 ld(2) plain_BCDF ud only_d [of 3000] by blast
  show ?thesis
    using f d ma md la ld plain_u1 ua plain_BCDF ud r1 r2 r3 r4 r5 r6 by (intro conjI)
qed

section \<open>Values with a double quote\<close>

lemma uid_text_quoted: "uid_text quoted_uid = ''{\"uid\": \"a\"b\"}''"
  by (simp add: uid_text_def quoted_uid_def)

lemma uid_text_injected: "uid_text injected_uid = ''{\"uid\": \"x\", \"uid\": \"u1\"}''"
  by (simp add: uid_text_def injected_uid_def)

text \<open>
  C4. \<open>session_q\<close> is live and its payload has the \<^verbatim>\<open>uid\<close> \<^verbatim>\<open>a"b\<close>. The text \<open>findByUid\<close>
  builds for that value is \<^verbatim>\<open>{"uid": "a"b"}\<close>, which is not JSON: the database refuses
  it and the read is rejected, where the claim has it return the payload. And for
  the value \<^verbatim>\<open>x", "uid": "u1\<close> the text is \<^verbatim>\<open>{"uid": "x", "uid": "u1"}\<close>, the object with
  the \<^verbatim>\<open>uid\<close> \<^verbatim>\<open>u1\<close>: the read returns the payload of \<open>session_a\<close>, whose \<^verbatim>\<open>uid\<close> is not
  the value asked for.
\<close>

theorem findByUid_quote_failing_input:
  "session_q \<in> set (records quote_world) \<and> live session_q 1500
   \<and> map_of (data session_q) ''uid'' = Some (JStr quoted_uid)
   \<and> fst (findByUid quoted_uid 1500 quote_world) = Inl InvalidTextRepresentation
   \<and> fst (findByUid injected_uid 1500 quote_world) = Inr (Some (data session_a))
   \<and> map_of (data session_a) ''uid'' = Some (JStr ''u1'')
   \<and> injected_uid \<noteq> ''u1''"
  by (simp add: findByUid_def fetch_contains_def issue_def uid_text_def jsonb_in_def expect_def
      is_ws_def is_digit_def is_alnum_def lex_word_def code_def dquote_def backslash_def live_def
      quote_world_def session_q_def session_a_def quoted_uid_def injected_uid_def)

section \<open>Revocation by grant\<close>

lemma destroy_contains_no_fault:
  "faults w = [] \<Longrightarrow> jsonb_in text = Some pat \<Longrightarrow>
   destroy_contains text w =
     (Inr (), w\<lparr>log := log w @ [DeleteStmt],
               records := filter (\<lambda>r. \<not> contains (JObj (data r)) pat) (records w)\<rparr>)"
  by (simp add: destroy_contains_def issue_no_fault)

text \<open>
  For a plain value, with the database answering, \<open>revokeByGrantId\<close> succeeds and
  deletes the rows whose payload has that \<^verbatim>\<open>grantId\<close>, live or not, and no other.
\<close>

lemma revokeByGrantId_plain:
  assumes "faults w = []" and "plain grantId"
  shows "fst (revokeByGrantId grantId w) = Inr ()"
    and "records (snd (revokeByGrantId grantId w)) =
       filter (\<lambda>r. map_of (data r) ''grantId'' \<noteq> Some (JStr grantId)) (records w)"
proof -
  have e: "(\<lambda>r. \<not> contains (JObj (data r)) (JObj [(''grantId'', JStr grantId)])) =
        (\<lambda>r. map_of (data r) ''grantId'' \<noteq> Some (JStr grantId))"
    by (simp only: contains_field)
  have d: "destroy_contains (grantId_text grantId) w =
     (Inr (), w\<lparr>log := log w @ [DeleteStmt],
               records := filter (\<lambda>r. \<not> contains (JObj (data r)) (JObj [(''grantId'', JStr grantId)]))
                            (records w)\<rparr>)"
    using assms(1) jsonb_in_grantId_text [OF assms(2)] by (rule destroy_contains_no_fault)
  have r: "revokeByGrantId grantId w =
     (Inr (), w\<lparr>log := log w @ [DeleteStmt],
               records := filter (\<lambda>r. map_of (data r) ''grantId'' \<noteq> Some (JStr grantId))
                            (records w)\<rparr>)"
    by (simp only: revokeByGrantId_def d e)
  show "fst (revokeByGrantId grantId w) = Inr ()"
    by (simp add: r)
  show "records (snd (revokeByGrantId grantId w)) =
       filter (\<lambda>r. map_of (data r) ''grantId'' \<noteq> Some (JStr grantId)) (records w)"
    by (simp add: r)
qed

lemma grantId_text_quoted: "grantId_text quoted_grant = ''{\"grantId\": \"g\"1\"}''"
  by (simp add: grantId_text_def quoted_grant_def)

lemma grantId_text_injected:
  "grantId_text injected_grant = ''{\"grantId\": \"x\", \"grantId\": \"g1\"}''"
  by (simp add: grantId_text_def injected_grant_def)

text \<open>
  C8. The payload of \<open>token_q\<close> has the \<^verbatim>\<open>grantId\<close> \<^verbatim>\<open>g"1\<close>. The text \<open>revokeByGrantId\<close>
  builds for that value is \<^verbatim>\<open>{"grantId": "g"1"}\<close>, which is not JSON: the database
  refuses it, the call is rejected and \<open>token_q\<close> stays, where the claim has it deleted.
  And for the value \<^verbatim>\<open>x", "grantId": "g1\<close> the text is the object with the \<^verbatim>\<open>grantId\<close>
  \<^verbatim>\<open>g1\<close>: the call deletes \<open>token_b\<close>, whose \<^verbatim>\<open>grantId\<close> is not the value given.
\<close>

theorem revokeByGrantId_quote_failing_input:
  "token_q \<in> set (records grant_world)
   \<and> map_of (data token_q) ''grantId'' = Some (JStr quoted_grant)
   \<and> fst (revokeByGrantId quoted_grant grant_world) = Inl InvalidTextRepresentation
   \<and> records (snd (revokeByGrantId quoted_grant grant_world)) = [token_q, token_b]
   \<and> map_of (data token_b) ''grantId'' = Some (JStr ''g1'')
   \<and> injected_grant \<noteq> ''g1''
   \<and> fst (revokeByGrantId injected_grant grant_world) = Inr ()
   \<and> records (snd (revokeByGrantId injected_grant grant_world)) = [token_q]"
  by (simp add: revokeByGrantId_def destroy_contains_def issue_def grantId_text_def jsonb_in_def
      expect_def is_ws_def is_digit_def is_alnum_def lex_word_def code_def dquote_def
      backslash_def grant_world_def token_q_def token_b_def quoted_grant_def injected_grant_def)

section \<open>The calendar\<close>

lemma succ_div:
  fixes a k :: int
  assumes "0 < k"
  shows "(a + 1) div k = a div k + (if (a + 1) mod k = 0 then 1 else 0)"
proof -
  define q where "q = a div k"
  define r where "r = a mod k"
  have a: "a = k * q + r" and r: "0 \<le> r" "r < k"
    using assms by (simp_all add: q_def r_def)
  show ?thesis
  proof (cases "r + 1 = k")
    case True
    then have e: "a + 1 = k * (q + 1) + 0" using a by (simp add: algebra_simps)
    have "(a + 1) div k = q + 1" using assms by (intro int_div_pos_eq [OF e]) simp_all
    moreover have "(a + 1) mod k = 0" using assms by (intro int_mod_pos_eq [OF e]) simp_all
    ultimately show ?thesis by (simp add: q_def)
  next
    case False
    then have lt: "r + 1 < k" using r by simp
    have e: "a + 1 = k * q + (r + 1)" using a by simp
    have "(a + 1) div k = q" using r lt by (intro int_div_pos_eq [OF e]) simp_all
    moreover have "(a + 1) mod k = r + 1" using r lt by (intro int_mod_pos_eq [OF e]) simp_all
    ultimately show ?thesis using r by (simp add: q_def)
  qed
qed

lemma mod_shift: "(y - k * c) mod k = (y::int) mod k"
proof -
  have "(y + k * (- c)) mod k = y mod k" by (rule mod_mult_self2)
  then show ?thesis by simp
qed

lemma DayFromYear_step: "DayFromYear (y + 1) = DayFromYear y + DaysInYear y"
proof -
  have d4: "(y - 1968) div 4 = (y - 1969) div 4 + (if y mod 4 = 0 then 1 else 0)"
    using succ_div [of 4 "y - 1969"] mod_shift [of y 4 492] by simp
  have d100: "(y - 1900) div 100 = (y - 1901) div 100 + (if y mod 100 = 0 then 1 else 0)"
    using succ_div [of 100 "y - 1901"] mod_shift [of y 100 19] by simp
  have d400: "(y - 1600) div 400 = (y - 1601) div 400 + (if y mod 400 = 0 then 1 else 0)"
    using succ_div [of 400 "y - 1601"] mod_shift [of y 400 4] by simp
  have a: "y mod 4 = 0" if "y mod 100 = 0"
  proof -
    have "100 dvd y" using that by (simp add: mod_eq_0_iff_dvd)
    moreover have "(4::int) dvd 100" by simp
    ultimately have "4 dvd y" using dvd_trans by blast
    then show ?thesis by (simp add: mod_eq_0_iff_dvd)
  qed
  have b: "y mod 100 = 0" if "y mod 400 = 0"
  proof -
    have "400 dvd y" using that by (simp add: mod_eq_0_iff_dvd)
    moreover have "(100::int) dvd 400" by simp
    ultimately have "100 dvd y" using dvd_trans by blast
    then show ?thesis by (simp add: mod_eq_0_iff_dvd)
  qed
  have e: "DayFromYear (y + 1) = 365 * (y - 1969) + (y - 1968) div 4 - (y - 1900) div 100 + (y - 1600) div 400"
    by (simp add: DayFromYear_def)
  show ?thesis
    unfolding e d4 d100 d400 using a b by (simp add: DayFromYear_def DaysInYear_def)
qed

lemma DaysInYear_bounds: "365 \<le> DaysInYear y \<and> DaysInYear y \<le> 366"
  by (simp add: DaysInYear_def)

lemma DayFromYear_1970: "DayFromYear 1970 = 0"
  by (simp add: DayFromYear_def)

lemma DayFromYear_after: "365 * int k \<le> DayFromYear (1970 + int k) \<and> DayFromYear (1970 + int k) \<le> 366 * int k"
proof (induction k)
  case 0
  then show ?case by (simp add: DayFromYear_1970)
next
  case (Suc k)
  have "DayFromYear (1970 + int (Suc k)) = DayFromYear (1970 + int k) + DaysInYear (1970 + int k)"
    using DayFromYear_step [of "1970 + int k"] by (simp add: add.assoc)
  then show ?case
    using Suc DaysInYear_bounds [of "1970 + int k"] by simp
qed

lemma DayFromYear_before: "366 * - int k \<le> DayFromYear (1970 - int k) \<and> DayFromYear (1970 - int k) \<le> 365 * - int k"
proof (induction k)
  case 0
  then show ?case by (simp add: DayFromYear_1970)
next
  case (Suc k)
  have "DayFromYear (1970 - int k) = DayFromYear (1970 - int (Suc k)) + DaysInYear (1970 - int (Suc k))"
    using DayFromYear_step [of "1970 - int (Suc k)"] by simp
  then show ?case
    using Suc DaysInYear_bounds [of "1970 - int (Suc k)"] by simp
qed

lemma year_guess_le:
  "DayFromYear (1970 + (if 0 \<le> d then d div 366 else d div 365)) \<le> d"
proof (cases "0 \<le> d")
  case True
  then have n: "0 \<le> d div 366" by simp
  have "DayFromYear (1970 + int (nat (d div 366))) \<le> 366 * int (nat (d div 366))"
    using DayFromYear_after by blast
  then have "DayFromYear (1970 + d div 366) \<le> 366 * (d div 366)"
    using n by simp
  also have "\<dots> \<le> d"
    using mult_div_mod_eq [of 366 d] pos_mod_sign [of 366 d] by linarith
  finally show ?thesis using True by simp
next
  case False
  then have n: "d div 365 \<le> 0" by (simp add: div_nonpos_pos_le0)
  have "DayFromYear (1970 - int (nat (- (d div 365)))) \<le> 365 * - int (nat (- (d div 365)))"
    using DayFromYear_before by blast
  then have "DayFromYear (1970 + d div 365) \<le> 365 * (d div 365)"
    using n by simp
  also have "\<dots> \<le> d"
    using mult_div_mod_eq [of 365 d] pos_mod_sign [of 365 d] by linarith
  finally show ?thesis using False by simp
qed

lemma year_search_upper: "d < DayFromYear (year_search y d + 1)"
proof (induction y d rule: year_search.induct)
  case (1 y d)
  show ?case
  proof (cases "DayFromYear (y + 1) \<le> d")
    case True
    then show ?thesis using 1 by (simp add: year_search.simps [of y d])
  next
    case False
    then show ?thesis by (simp add: year_search.simps [of y d])
  qed
qed

lemma year_search_lower: "DayFromYear y \<le> d \<Longrightarrow> DayFromYear (year_search y d) \<le> d"
proof (induction y d rule: year_search.induct)
  case (1 y d)
  show ?case
  proof (cases "DayFromYear (y + 1) \<le> d")
    case True
    then show ?thesis using 1 by (simp add: year_search.simps [of y d])
  next
    case False
    then show ?thesis using 1 by (simp add: year_search.simps [of y d])
  qed
qed

lemma year_search_ge: "y \<le> year_search y d"
proof (induction y d rule: year_search.induct)
  case (1 y d)
  show ?case
  proof (cases "DayFromYear (y + 1) \<le> d")
    case True
    then show ?thesis using 1 by (simp add: year_search.simps [of y d])
  next
    case False
    then show ?thesis by (simp add: year_search.simps [of y d])
  qed
qed

lemma YearFromTime_bounds:
  "DayFromYear (YearFromTime t) \<le> Day t \<and> Day t < DayFromYear (YearFromTime t + 1)"
  using year_search_lower [OF year_guess_le [of "Day t"]] year_search_upper
  by (simp add: YearFromTime_def Let_def)

lemma DayWithinYear_bounds:
  "0 \<le> DayWithinYear t \<and> DayWithinYear t < 365 + InLeapYear t"
proof -
  have "DaysInYear (YearFromTime t) = 365 + InLeapYear t"
    by (simp add: InLeapYear_def DaysInYear_def)
  then show ?thesis
    using YearFromTime_bounds [of t] DayFromYear_step [of "YearFromTime t"]
    by (simp add: DayWithinYear_def)
qed

lemma InLeapYear_cases: "InLeapYear t = 0 \<or> InLeapYear t = 1"
  by (simp add: InLeapYear_def)

lemma MonthFromTime_bounds: "0 \<le> MonthFromTime t \<and> MonthFromTime t \<le> 11"
  by (simp add: MonthFromTime_def Let_def)

lemma DateFromTime_bounds: "1 \<le> DateFromTime t \<and> DateFromTime t \<le> 31"
  using DayWithinYear_bounds [of t] InLeapYear_cases [of t]
  by (auto simp: DateFromTime_def MonthFromTime_def Let_def)

text \<open>
  The time value of a \<^verbatim>\<open>Date\<close> is at most 8.64e15 milliseconds from the epoch: its year
  has no more than six digits, which \<open>year_text\<close> writes.
\<close>

lemma YearFromTime_range:
  assumes "\<bar>t\<bar> \<le> 8640000000000000"
  shows "- 999999 \<le> YearFromTime t \<and> YearFromTime t \<le> 999999"
proof -
  let ?y = "YearFromTime t"
  have d: "- 100000000 \<le> Day t" "Day t \<le> 100000000"
    using assms by (simp_all add: Day_def msPerDay_def)
  have b: "DayFromYear ?y \<le> Day t" "Day t < DayFromYear (?y + 1)"
    using YearFromTime_bounds [of t] by simp_all
  have up: "?y \<le> 999999"
  proof (cases "1970 \<le> ?y")
    case True
    have "365 * int (nat (?y - 1970)) \<le> DayFromYear (1970 + int (nat (?y - 1970)))"
      using DayFromYear_after by blast
    then have "365 * ?y - 719050 \<le> DayFromYear ?y"
      using True by (simp add: algebra_simps)
    then show ?thesis using b(1) d(2) by linarith
  next
    case False
    then show ?thesis by simp
  qed
  have lo: "- 999999 \<le> ?y"
  proof (cases "?y + 1 \<le> 1970")
    case True
    have "DayFromYear (1970 - int (nat (1970 - (?y + 1)))) \<le> 365 * - int (nat (1970 - (?y + 1)))"
      using DayFromYear_before by blast
    then have "DayFromYear (?y + 1) \<le> 365 * ?y - 718685"
      using True by (simp add: algebra_simps)
    then show ?thesis using b(2) d(1) by linarith
  next
    case False
    then show ?thesis by simp
  qed
  show ?thesis using lo up by simp
qed

section \<open>The shape of an ISO 8601 time stamp\<close>

lemma code_byte: "n < 256 \<Longrightarrow> code (byte n) = n"
  by (simp add: code_def byte_def)

lemma digit_byte: "k < 10 \<Longrightarrow> is_digit (byte (48 + k)) \<and> digit_val (byte (48 + k)) = k"
  by (simp add: is_digit_def digit_val_def code_byte)

lemma pad_length: "length (pad w n) = w"
  by (induction w arbitrary: n) simp_all

lemma pad_digits: "list_all is_digit (pad w n)"
proof (induction w arbitrary: n)
  case 0
  then show ?case by simp
next
  case (Suc w)
  have "nat (n mod 10) < 10" by simp
  then have "is_digit (byte (48 + nat (n mod 10)))"
    using digit_byte by blast
  then show ?case using Suc by simp
qed

lemma pad_2: "pad 2 n = [byte (48 + nat (n div 10 mod 10)), byte (48 + nat (n mod 10))]"
  by (simp add: numeral_2_eq_2)

lemma pad_3:
  "pad 3 n = [byte (48 + nat (n div 10 div 10 mod 10)), byte (48 + nat (n div 10 mod 10)),
              byte (48 + nat (n mod 10))]"
  by (simp add: numeral_3_eq_3)

lemma two_digits_pad:
  assumes "0 \<le> n" and "n < 100"
  shows "two_digits (byte (48 + nat (n div 10 mod 10))) (byte (48 + nat (n mod 10))) = Some (nat n)"
proof -
  have a: "nat (n div 10 mod 10) < 10" and b: "nat (n mod 10) < 10"
    by simp_all
  have "n div 10 mod 10 = n div 10"
    using assms by simp
  moreover have "0 \<le> n div 10"
    using assms by (simp add: pos_imp_zdiv_nonneg_iff)
  ultimately have "int (10 * nat (n div 10 mod 10) + nat (n mod 10)) = n"
    using assms by simp
  then have "10 * nat (n div 10 mod 10) + nat (n mod 10) = nat n"
    by (metis nat_int)
  then show ?thesis
    using digit_byte [OF a] digit_byte [OF b] by (simp add: two_digits_def)
qed

lemma toISOString_split: "toISOString t = year_text (YearFromTime t) @ iso_time_text t"
  by (simp add: toISOString_def iso_time_text_def)

lemma iso_time_text_length: "length (iso_time_text t) = 20"
  by (simp add: iso_time_text_def pad_length)

lemma in_range_pad:
  assumes "int lo \<le> n" and "n \<le> int hi" and "n < 100"
  shows "in_range (two_digits (byte (48 + nat (n div 10 mod 10))) (byte (48 + nat (n mod 10)))) lo hi"
proof -
  have "0 \<le> n" using assms(1) by linarith
  then have "two_digits (byte (48 + nat (n div 10 mod 10))) (byte (48 + nat (n mod 10))) = Some (nat n)"
    using assms(3) by (rule two_digits_pad)
  moreover have "lo \<le> nat n" "nat n \<le> hi"
    using assms(1,2) by linarith+
  ultimately show ?thesis by (simp add: in_range_def)
qed

lemma iso_tail_time_text: "iso_tail (iso_time_text t)"
proof -
  have m: "in_range (two_digits (byte (48 + nat ((MonthFromTime t + 1) div 10 mod 10)))
      (byte (48 + nat ((MonthFromTime t + 1) mod 10)))) 1 12"
    using MonthFromTime_bounds [of t] by (intro in_range_pad) simp_all
  have d: "in_range (two_digits (byte (48 + nat (DateFromTime t div 10 mod 10)))
      (byte (48 + nat (DateFromTime t mod 10)))) 1 31"
    using DateFromTime_bounds [of t] by (intro in_range_pad) simp_all
  have h: "in_range (two_digits (byte (48 + nat (HourFromTime t div 10 mod 10)))
      (byte (48 + nat (HourFromTime t mod 10)))) 0 23"
    by (intro in_range_pad) (simp_all add: HourFromTime_def)
  have n: "in_range (two_digits (byte (48 + nat (MinFromTime t div 10 mod 10)))
      (byte (48 + nat (MinFromTime t mod 10)))) 0 59"
    by (intro in_range_pad) (simp_all add: MinFromTime_def)
  have s: "in_range (two_digits (byte (48 + nat (SecFromTime t div 10 mod 10)))
      (byte (48 + nat (SecFromTime t mod 10)))) 0 59"
    by (intro in_range_pad) (simp_all add: SecFromTime_def)
  have f: "is_digit (byte (48 + nat (x mod 10)))" for x :: int
    using digit_byte [of "nat (x mod 10)"] by simp
  show ?thesis
    unfolding iso_time_text_def pad_2 pad_3
    using m d h n s f by simp
qed

text \<open>Every time value is written as such a time stamp.\<close>

lemma toISOString_iso8601: "is_iso8601 (toISOString t)"
proof (cases "0 \<le> YearFromTime t \<and> YearFromTime t \<le> 9999")
  case True
  then have y: "year_text (YearFromTime t) = pad 4 (YearFromTime t)"
    by (simp add: year_text_def)
  show ?thesis
    unfolding toISOString_split y
    by (simp add: is_iso8601_def pad_length iso_time_text_length pad_digits iso_tail_time_text)
next
  case False
  then obtain c where y: "year_text (YearFromTime t) = c # pad 6 \<bar>YearFromTime t\<bar>"
    and c: "c = CHR ''+'' \<or> c = CHR ''-''"
    by (auto simp: year_text_def)
  show ?thesis
    unfolding toISOString_split y using c
    by (simp add: is_iso8601_def pad_length iso_time_text_length pad_digits iso_tail_time_text)
qed

section \<open>Consume\<close>

lemma map_id_col_same:
  "(\<And>x. id_col (f x) = id_col x) \<Longrightarrow>
   map id_col (map (\<lambda>r. if id_col r = i then f r else r) rs) = map id_col rs"
  by (induction rs) auto

lemma consume_result:
  assumes "faults w = []" and "distinct (map id_col (records w))" and "r \<in> set (records w)"
  shows "fst (consume (id_col r) now w) = Inr ()"
    and "faults (snd (consume (id_col r) now w)) = []"
    and "distinct (map id_col (records (snd (consume (id_col r) now w))))"
    and "consumed_row now r \<in> set (records (snd (consume (id_col r) now w)))"
    and "\<forall>s. id_col s \<noteq> id_col r \<longrightarrow>
           (s \<in> set (records (snd (consume (id_col r) now w))) \<longleftrightarrow> s \<in> set (records w))"
proof -
  let ?f = "\<lambda>x. x\<lparr>data := AList.update ''consumed'' (JStr (toISOString now)) (data r),
                    updated_at := now\<rparr>"
  have found: "find (\<lambda>s. id_col s = id_col r) (records w) = Some r"
    using assms(2,3) by (rule find_by_id)
  have c: "consume (id_col r) now w =
    (Inr (), w\<lparr>log := log w @ [SelectStmt, UpdateStmt],
              records := map (\<lambda>x. if id_col x = id_col r then ?f x else x) (records w)\<rparr>)"
    using assms(1) found by (rule consume_present)
  have rows: "records (snd (consume (id_col r) now w)) =
      map (\<lambda>x. if id_col x = id_col r then ?f x else x) (records w)"
    by (simp add: c)
  show "fst (consume (id_col r) now w) = Inr ()"
    by (simp add: c)
  show "faults (snd (consume (id_col r) now w)) = []"
    using assms(1) by (simp add: c)
  have "map id_col (map (\<lambda>x. if id_col x = id_col r then ?f x else x) (records w)) =
        map id_col (records w)"
    by (rule map_id_col_same) simp
  then show "distinct (map id_col (records (snd (consume (id_col r) now w))))"
    using assms(2) by (simp only: rows)
  have "?f r \<in> set (map (\<lambda>x. if id_col x = id_col r then ?f x else x) (records w))"
    using assms(3) by (auto simp: image_iff intro!: bexI [of _ r])
  then show "consumed_row now r \<in> set (records (snd (consume (id_col r) now w)))"
    by (simp only: rows consumed_row_def)
  show "\<forall>s. id_col s \<noteq> id_col r \<longrightarrow>
           (s \<in> set (records (snd (consume (id_col r) now w))) \<longleftrightarrow> s \<in> set (records w))"
    unfolding rows by (auto simp: image_iff)
qed

lemma consumed_row_fields:
  "id_col (consumed_row now r) = id_col r"
  "name (consumed_row now r) = name r"
  "expires_at (consumed_row now r) = expires_at r"
  "data (consumed_row now r) = AList.update ''consumed'' (JStr (toISOString now)) (data r)"
  "live (consumed_row now r) t = live r t"
  by (simp_all add: consumed_row_def live_def)

lemma consumed_twice: "consumed_row now' (consumed_row now r) = consumed_row now' r"
  by (simp add: consumed_row_def update_last)

lemma toISOString_1500: "toISOString 1500 = ''1970-01-01T00:00:01.500Z''"
  by code_simp

lemma toISOString_2026: "toISOString 1793689200123 = ''2026-11-03T07:00:00.123Z''"
  by code_simp

text \<open>
  C5. With the database answering and the ids distinct, \<open>consume\<close> on the id of a stored
  row \<open>r\<close> succeeds and leaves, as the one row of that id, \<open>r\<close> with the property
  \<^verbatim>\<open>consumed\<close> of its payload set to the time of the call as an ISO 8601 text (and
  \<^verbatim>\<open>updated_at\<close> set): the id and \<^verbatim>\<open>expires_at\<close> are those of \<open>r\<close>, every other property of
  the payload is as it was, and every other row is untouched. If \<open>r\<close> is live at a
  time \<open>t\<close>, \<open>find_rec\<close> then returns that payload. A second \<open>consume\<close> succeeds too and
  leaves \<open>r\<close> with \<^verbatim>\<open>consumed\<close> set to the time of the second call.
\<close>

theorem consume_is_additive:
  fixes w :: world and r :: row and now :: int
  assumes "faults w = []" and "distinct (map id_col (records w))" and "r \<in> set (records w)"
  defines "w1 \<equiv> snd (consume (id_col r) now w)"
  shows "fst (consume (id_col r) now w) = Inr ()
       \<and> find (\<lambda>s. id_col s = id_col r) (records w1) = Some (consumed_row now r)
       \<and> id_col (consumed_row now r) = id_col r
       \<and> expires_at (consumed_row now r) = expires_at r
       \<and> map_of (data (consumed_row now r)) ''consumed'' = Some (JStr (toISOString now))
       \<and> is_iso8601 (toISOString now)
       \<and> (\<forall>k. k \<noteq> ''consumed'' \<longrightarrow> map_of (data (consumed_row now r)) k = map_of (data r) k)
       \<and> (\<forall>s. id_col s \<noteq> id_col r \<longrightarrow> (s \<in> set (records w1) \<longleftrightarrow> s \<in> set (records w)))
       \<and> (live r t \<longrightarrow> fst (find_rec (id_col r) t w1) = Inr (Some (data (consumed_row now r))))
       \<and> fst (consume (id_col r) now' w1) = Inr ()
       \<and> find (\<lambda>s. id_col s = id_col r) (records (snd (consume (id_col r) now' w1))) =
           Some (consumed_row now' r)"
proof -
  let ?r1 = "consumed_row now r"
  note first = consume_result [OF assms(1,2,3), of now, folded w1_def]
  have id1: "id_col ?r1 = id_col r"
    by (simp add: consumed_row_fields)
  have c1: "fst (consume (id_col r) now w) = Inr ()"
    by (rule consume_result(1) [OF assms(1,2,3)])
  have "find (\<lambda>s. id_col s = id_col ?r1) (records w1) = Some ?r1"
    using first(3,4) by (rule find_by_id)
  then have c2: "find (\<lambda>s. id_col s = id_col r) (records w1) = Some ?r1"
    by (simp only: id1)
  have c5: "map_of (data ?r1) ''consumed'' = Some (JStr (toISOString now))"
    by (simp add: consumed_row_fields update_conv')
  have c7: "\<forall>k. k \<noteq> ''consumed'' \<longrightarrow> map_of (data ?r1) k = map_of (data r) k"
    by (simp add: consumed_row_fields update_conv')
  have "fst (find_rec (id_col ?r1) t w1) = Inr (if live ?r1 t then Some (data ?r1) else None)"
    using find_rec_no_fault [OF first(2), of "id_col ?r1" t] find_id_live [OF first(3,4), of t]
    by simp
  then have c9: "live r t \<longrightarrow> fst (find_rec (id_col r) t w1) = Inr (Some (data ?r1))"
    by (simp add: consumed_row_fields)
  note second = consume_result [OF first(2,3,4), of now']
  have c10: "fst (consume (id_col r) now' w1) = Inr ()"
    using second(1) by (simp only: id1)
  have "find (\<lambda>s. id_col s = id_col (consumed_row now' ?r1))
          (records (snd (consume (id_col ?r1) now' w1))) = Some (consumed_row now' ?r1)"
    using second(3,4) by (rule find_by_id)
  then have c11: "find (\<lambda>s. id_col s = id_col r) (records (snd (consume (id_col r) now' w1))) =
           Some (consumed_row now' r)"
    by (simp add: consumed_twice consumed_row_fields)
  show ?thesis
    using c1 c2 id1 consumed_row_fields(3) [of now r] c5 toISOString_iso8601 [of now] c7
      first(5) c9 c10 c11
    by (intro conjI)
qed

theorem consume_is_additive_witness:
  "faults small_world = [] \<and> distinct (map id_col (records small_world))
   \<and> session_a \<in> set (records small_world) \<and> live session_a 1800
   \<and> fst (consume (id_col session_a) 1500 small_world) = Inr ()
   \<and> records (snd (consume (id_col session_a) 1500 small_world)) =
       [\<lparr>name = ''Session'', id_col = ''a'',
         data = [(''uid'', JStr ''u1''), (''consumed'', JStr ''1970-01-01T00:00:01.500Z'')],
         expires_at = Some 2000, updated_at = 1500\<rparr>, token_b]
   \<and> is_iso8601 ''1970-01-01T00:00:01.500Z''
   \<and> fst (find_rec (id_col session_a) 1800 (snd (consume (id_col session_a) 1500 small_world))) =
       Inr (Some [(''uid'', JStr ''u1''), (''consumed'', JStr ''1970-01-01T00:00:01.500Z'')])
   \<and> fst (consume (id_col session_a) 1700 (snd (consume (id_col session_a) 1500 small_world))) = Inr ()"
proof -
  have f: "faults small_world = []"
    and d: "distinct (map id_col (records small_world))"
    and m: "session_a \<in> set (records small_world)"
    by (simp_all add: small_world_def session_a_def token_b_def)
  have l: "live session_a 1800"
    by (simp add: live_def session_a_def)
  note t = consume_is_additive [OF f d m, where now = 1500 and t = 1800 and now' = 1700]
  have row: "consumed_row 1500 session_a =
      \<lparr>name = ''Session'', id_col = ''a'',
        data = [(''uid'', JStr ''u1''), (''consumed'', JStr ''1970-01-01T00:00:01.500Z'')],
        expires_at = Some 2000, updated_at = 1500\<rparr>"
    by (simp add: consumed_row_def session_a_def toISOString_1500)
  have rows: "records (snd (consume (id_col session_a) 1500 small_world)) =
       [\<lparr>name = ''Session'', id_col = ''a'',
         data = [(''uid'', JStr ''u1''), (''consumed'', JStr ''1970-01-01T00:00:01.500Z'')],
         expires_at = Some 2000, updated_at = 1500\<rparr>, token_b]"
    by (simp add: consume_def fetch_def issue_def save_update_def small_world_def session_a_def
        token_b_def toISOString_1500)
  have iso: "is_iso8601 ''1970-01-01T00:00:01.500Z''"
    using t by (simp only: toISOString_1500)
  have fr: "fst (find_rec (id_col session_a) 1800 (snd (consume (id_col session_a) 1500 small_world))) =
       Inr (Some [(''uid'', JStr ''u1''), (''consumed'', JStr ''1970-01-01T00:00:01.500Z'')])"
    using t l by (simp add: row)
  have again: "fst (consume (id_col session_a) 1700 (snd (consume (id_col session_a) 1500 small_world))) = Inr ()"
    using t by blast
  show ?thesis
    using f d m l t rows iso fr again by (intro conjI) blast+
qed

end
